theory Spec2Isabelle
  imports
    Complex_Main
    "HOL-Library.Char_ord"
    "HOL-Library.List_Lexorder"
begin

section \<open>Gephi input files from the Personality Disorder data\<close>

text \<open>
  A shallow embedding of \<^verbatim>\<open>Gephi_Input_files_from_PD_data_v6.py\<close>: the recoding of
  the ward team and setting columns for a subgroup, the categorical encoding of the ward
  teams, the service movement matrix, the edge file and the node file. File names and the
  writing of the csv files are left out; each output function returns the table it writes.
\<close>

subsection \<open>Exceptions\<close>

text \<open>
  The exceptions the modelled code can raise. \<open>ValueError_max_empty\<close> is Python's
  \<^verbatim>\<open>max() arg is an empty sequence\<close>; \<open>ValueError_negative_dimensions\<close> is what
  \<^verbatim>\<open>np.zeros\<close> raises for a negative size; \<open>ValueError_array_dimensions\<close> is what
  \<^verbatim>\<open>np.vstack\<close> raises when the stacked arrays differ in length (its message names
  array sizes only); \<open>IndexError\<close> is an index outside an array; \<open>KeyError\<close> and
  \<open>AttributeError\<close> are a dataframe column that does not exist, read as \<^verbatim>\<open>df['c']\<close>
  and as \<^verbatim>\<open>df.c\<close>.
\<close>

datatype error =
    ValueError_max_empty
  | ValueError_negative_dimensions
  | ValueError_array_dimensions
  | IndexError
  | KeyError string
  | AttributeError string

subsection \<open>Data frames\<close>

text \<open>
  The two columns the program writes through \<^verbatim>\<open>.values\<close> views, \<^verbatim>\<open>WardTeam\<close> and
  \<^verbatim>\<open>Setting\<close>, are arrays in a store, and a data frame holds their addresses: a write
  through the view changes the array every frame with that address sees. The other columns
  are never written in place and are held by value. \<^verbatim>\<open>COLUMN\<close> is the column that
  \<^verbatim>\<open>subgroup_info['COLUMN']\<close> names: a column other than \<^verbatim>\<open>WardTeam\<close> and \<^verbatim>\<open>Setting\<close>,
  as in every network the program makes, so the view of it is only read. Its values are
  strings, so \<^verbatim>\<open>str(notgroup)\<close> is \<^verbatim>\<open>notgroup\<close>. The four columns the program adds are
  absent (\<open>None\<close>) until they are assigned; an assignment \<^verbatim>\<open>df[c] = values\<close> stores a copy
  of the values. Ward teams and settings are strings too: a missing value is outside the
  model.

  All columns of a data frame have the same number of rows; \<open>wf_frame\<close> says so for the
  columns a frame has when it is read, and that its two arrays are distinct arrays of the
  store.
\<close>

type_synonym addr = nat

type_synonym heap = "string list list"

record dataframe =
  ClientID :: "int list"
  COLUMN :: "string list"
  LoSdays :: "int list"
  WardTeam :: addr
  Setting :: addr
  newWardTeam :: "string list option"
  newSetting :: "string list option"
  wardTeamCat :: "string list option"
  wardTeamCatCode :: "int list option"

record subgroup_info =
  DATA :: dataframe
  REPRESENT_REMOVED :: nat
  SUBGROUP_NODE_NAME :: string

definition wf_frame :: "heap \<Rightarrow> dataframe \<Rightarrow> bool" where
  "wf_frame h df \<longleftrightarrow>
     WardTeam df < length h \<and> Setting df < length h \<and> WardTeam df \<noteq> Setting df \<and>
     length (h ! WardTeam df) = length (ClientID df) \<and>
     length (h ! Setting df) = length (ClientID df) \<and>
     length (COLUMN df) = length (ClientID df) \<and>
     length (LoSdays df) = length (ClientID df)"

definition unique :: "'a list \<Rightarrow> 'a list" where
  \<comment> \<open>\<^verbatim>\<open>Series.unique()\<close>: the distinct values in the order of their first appearance\<close>
  "unique xs = rev (remdups (rev xs))"

definition alloc :: "string list \<Rightarrow> heap \<Rightarrow> addr \<times> heap" where
  "alloc a h = (length h, h @ [a])"

definition take_rows :: "bool list \<Rightarrow> 'a list \<Rightarrow> 'a list" where
  "take_rows keep xs = map fst (filter snd (zip xs keep))"

definition getitem_mask :: "bool list \<Rightarrow> dataframe \<Rightarrow> heap \<Rightarrow> dataframe \<times> heap" where
  \<comment> \<open>\<^verbatim>\<open>df[mask]\<close>: a new frame, on arrays of its own, with the rows the mask selects\<close>
  "getitem_mask keep df h =
     (let (w, h1) = alloc (take_rows keep (h ! WardTeam df)) h;
          (s, h2) = alloc (take_rows keep (h ! Setting df)) h1
      in (\<lparr>ClientID = take_rows keep (ClientID df),
           COLUMN = take_rows keep (COLUMN df),
           LoSdays = take_rows keep (LoSdays df),
           WardTeam = w,
           Setting = s,
           newWardTeam = map_option (take_rows keep) (newWardTeam df),
           newSetting = map_option (take_rows keep) (newSetting df),
           wardTeamCat = map_option (take_rows keep) (wardTeamCat df),
           wardTeamCatCode = map_option (take_rows keep) (wardTeamCatCode df)\<rparr>, h2))"

definition copy_deep :: "dataframe \<Rightarrow> heap \<Rightarrow> dataframe \<times> heap" where
  \<comment> \<open>\<^verbatim>\<open>df.copy(deep = True)\<close>\<close>
  "copy_deep df h =
     (let (w, h1) = alloc (h ! WardTeam df) h;
          (s, h2) = alloc (h ! Setting df) h1
      in (df\<lparr>WardTeam := w, Setting := s\<rparr>, h2))"

subsection \<open>The new ward team and setting columns\<close>

definition assign_where :: "string list \<Rightarrow> string \<Rightarrow> string \<Rightarrow> string list \<Rightarrow> string list" where
  \<comment> \<open>\<^verbatim>\<open>a[npColumn == notgroup] = v\<close>, the new contents of \<^verbatim>\<open>a\<close>\<close>
  "assign_where npColumn notgroup v a =
     map (\<lambda>(x, g). if g = notgroup then v else x) (zip a npColumn)"

definition recode_step ::
  "subgroup_info \<Rightarrow> string \<Rightarrow> string \<Rightarrow> dataframe \<times> heap \<Rightarrow> dataframe \<times> heap" where
  \<comment> \<open>one round of the loop over the values of the column\<close>
  "recode_step subgroup_info grp notgroup = (\<lambda>(df, h).
     let npWardTeam = WardTeam df;
         npSetting = Setting df;
         npColumn = COLUMN df;
         h2 = (if grp \<noteq> notgroup then
                 let h1 = h[npWardTeam :=
                            assign_where npColumn notgroup
                              (SUBGROUP_NODE_NAME subgroup_info @ notgroup) (h ! npWardTeam)]
                 in h1[npSetting := assign_where npColumn notgroup ''Mixture'' (h1 ! npSetting)]
               else h)
     in (df\<lparr>newWardTeam := Some (h2 ! npWardTeam), newSetting := Some (h2 ! npSetting)\<rparr>, h2))"

definition create_new_ward_and_setting_columns ::
  "subgroup_info \<Rightarrow> dataframe \<Rightarrow> string \<Rightarrow> heap \<Rightarrow> dataframe \<times> heap" where
  "create_new_ward_and_setting_columns subgroup_info DATA_SG grp h =
     (if REPRESENT_REMOVED subgroup_info \<noteq> 0 then
        fold (recode_step subgroup_info grp) (unique (COLUMN DATA_SG)) (DATA_SG, h)
      else
        (DATA_SG\<lparr>newWardTeam := Some (h ! WardTeam DATA_SG),
                 newSetting := Some (h ! Setting DATA_SG)\<rparr>, h))"

subsection \<open>The numerical ID of a ward team\<close>

text \<open>
  \<^verbatim>\<open>astype('category')\<close> takes the distinct values of the column in sorted order as the
  categories, strings being compared lexicographically, and \<^verbatim>\<open>cat.codes\<close> gives each row
  the position of its value among the categories, counted from 0. The codes are machine
  integers of a width chosen from the number of categories and wide enough for it, so
  adding 1 to them does not wrap, and they are integers here.
\<close>

primrec index_of :: "'a list \<Rightarrow> 'a \<Rightarrow> nat" where
  "index_of [] x = 0"
| "index_of (y # ys) x = (if x = y then 0 else Suc (index_of ys x))"

definition categories :: "string list \<Rightarrow> string list" where
  "categories labels = sort (remdups labels)"

definition cat_codes :: "string list \<Rightarrow> int list" where
  "cat_codes labels = map (\<lambda>x. int (index_of (categories labels) x)) labels"

definition categorise_columns :: "dataframe \<Rightarrow> error + dataframe" where
  "categorise_columns DATA_SG =
     (case newWardTeam DATA_SG of
        None \<Rightarrow> Inl (KeyError ''newWardTeam'')
      | Some labels \<Rightarrow>
          Inr (DATA_SG\<lparr>wardTeamCat := Some labels,
                       wardTeamCatCode := Some (map (\<lambda>c. c + 1) (cat_codes labels))\<rparr>))"

subsection \<open>The service movement array and the edge file\<close>

text \<open>
  \<^verbatim>\<open>servMove\<close> is a two-dimensional array of frequencies, held as the list of its rows.
  The cells are counts of observed moves, so they are natural numbers (the source keeps
  them in floating point cells, which hold every count below \<open>2^53\<close> exactly).
\<close>

type_synonym ndarray2 = "nat list list"

definition getitem2 :: "ndarray2 \<Rightarrow> nat \<Rightarrow> nat \<Rightarrow> error + nat" where
  \<comment> \<open>\<^verbatim>\<open>servMove[j, i]\<close> with indices that are not negative\<close>
  "getitem2 servMove j i =
     (if j < length servMove \<and> i < length (servMove ! j) then Inr (servMove ! j ! i)
      else Inl IndexError)"

text \<open>
  The rows of the edge array while it is built: source, target, activity. The inner loop
  runs over the rows \<open>j\<close> of one column \<open>i\<close>, the outer loop over the columns. The array
  starts with a row of zeros, which is cut off after the loops. Stacked with the column of
  the types the numbers of the edge table become text in the source; they stay numbers
  here.
\<close>

fun edges_inner ::
  "ndarray2 \<Rightarrow> nat \<Rightarrow> nat list \<Rightarrow> (nat \<times> nat \<times> nat) list \<Rightarrow> error + (nat \<times> nat \<times> nat) list"
where
  "edges_inner servMove i [] edges = Inr edges"
| "edges_inner servMove i (j # js) edges =
     (case getitem2 servMove j i of
        Inl e \<Rightarrow> Inl e
      | Inr v \<Rightarrow>
          edges_inner servMove i js
            (if v > 0 then edges @ [(j + 1, i + 1, v)] else edges))"

fun edges_outer ::
  "ndarray2 \<Rightarrow> nat \<Rightarrow> nat list \<Rightarrow> (nat \<times> nat \<times> nat) list \<Rightarrow> error + (nat \<times> nat \<times> nat) list"
where
  "edges_outer servMove lenRow [] edges = Inr edges"
| "edges_outer servMove lenRow (i # is) edges =
     (case edges_inner servMove i [0..<lenRow] edges of
        Inl e \<Rightarrow> Inl e
      | Inr edges' \<Rightarrow> edges_outer servMove lenRow is edges')"

record edge_row =
  Source :: nat
  Target :: nat
  Type :: string
  EdgeId :: nat
  Weight :: nat

definition edge_columns ::
  "nat list \<Rightarrow> nat list \<Rightarrow> string list \<Rightarrow> nat list \<Rightarrow> nat list \<Rightarrow> edge_row list" where
  \<comment> \<open>the five stacked columns, transposed into rows\<close>
  "edge_columns src tgt ty eid w =
     map (\<lambda>(s, t, y, k, v). \<lparr>Source = s, Target = t, Type = y, EdgeId = k, Weight = v\<rparr>)
       (zip src (zip tgt (zip ty (zip eid w))))"

definition output_Edge_file :: "ndarray2 \<Rightarrow> error + edge_row list" where
  "output_Edge_file servMove =
     (let lenRow = length servMove in
      case edges_outer servMove lenRow [0..<lenRow] [(0, 0, 0)] of
        Inl e \<Rightarrow> Inl e
      | Inr edges0 \<Rightarrow>
          (let edges = drop 1 edges0;
               lenEdge = length edges;
               edgetype = replicate lenEdge ''Directed'';
               edgeid = [0..<lenEdge]
           in Inr (edge_columns (map fst edges) (map (fst \<circ> snd) edges) edgetype edgeid
                     (map (snd \<circ> snd) edges))))"

subsection \<open>The service movement file\<close>

text \<open>
  \<^verbatim>\<open>singles\<close> starts as the number 0, and every client with one admission is stacked under
  it: it is the list of its rows here, 0 first. The function returns \<^verbatim>\<open>servMove\<close> only;
  \<open>SM_final\<close> keeps both, \<open>output_SM_file\<close> is its first part.
\<close>

definition py_max :: "int list \<Rightarrow> error + int" where
  "py_max xs = (case xs of [] \<Rightarrow> Inl ValueError_max_empty | y # ys \<Rightarrow> Inr (fold max ys y))"

definition np_zeros2 :: "int \<Rightarrow> error + ndarray2" where
  \<comment> \<open>\<^verbatim>\<open>np.zeros((n, n))\<close>\<close>
  "np_zeros2 n =
     (if n < 0 then Inl ValueError_negative_dimensions
      else Inr (replicate (nat n) (replicate (nat n) 0)))"

definition np_index :: "nat \<Rightarrow> int \<Rightarrow> error + nat" where
  \<comment> \<open>an index into an axis of length \<open>n\<close>; a negative index counts from the end\<close>
  "np_index n i =
     (if 0 \<le> i \<and> i < int n then Inr (nat i)
      else if - int n \<le> i \<and> i < 0 then Inr (nat (i + int n))
      else Inl IndexError)"

definition increment :: "ndarray2 \<Rightarrow> int \<Rightarrow> int \<Rightarrow> error + ndarray2" where
  \<comment> \<open>\<^verbatim>\<open>servMove[r, c] += 1\<close>\<close>
  "increment servMove r c =
     (case np_index (length servMove) r of
        Inl e \<Rightarrow> Inl e
      | Inr r' \<Rightarrow>
          (case np_index (length (servMove ! r')) c of
             Inl e \<Rightarrow> Inl e
           | Inr c' \<Rightarrow> Inr (servMove[r' := (servMove ! r')[c' := servMove ! r' ! c' + 1]])))"

fun record_moves :: "int list \<Rightarrow> ndarray2 \<Rightarrow> error + ndarray2" where
  \<comment> \<open>the loop over \<open>j\<close>: from this service of the client to the next one\<close>
  "record_moves (a # b # cs) servMove =
     (case increment servMove (a - 1) (b - 1) of
        Inl e \<Rightarrow> Inl e
      | Inr servMove' \<Rightarrow> record_moves (b # cs) servMove')"
| "record_moves cs servMove = Inr servMove"

definition client_codes :: "int list \<Rightarrow> int list \<Rightarrow> int \<Rightarrow> int list" where
  \<comment> \<open>\<^verbatim>\<open>DATA_SG[DATA_SG.ClientID == ID].wardTeamCatCode\<close>\<close>
  "client_codes ids codes ID = map snd (filter (\<lambda>r. fst r = ID) (zip ids codes))"

definition SM_client ::
  "int list \<Rightarrow> int list \<Rightarrow> int \<Rightarrow> ndarray2 \<times> int list \<Rightarrow> error + ndarray2 \<times> int list" where
  \<comment> \<open>the body of the loop over the clients, on \<^verbatim>\<open>servMove\<close> and \<^verbatim>\<open>singles\<close>\<close>
  "SM_client ids codes ID = (\<lambda>(servMove, singles).
     let cWardTeam = client_codes ids codes ID;
         l = length cWardTeam
     in if l > 1 then
          (case record_moves cWardTeam servMove of
             Inl e \<Rightarrow> Inl e
           | Inr servMove' \<Rightarrow> Inr (servMove', singles))
        else Inr (servMove, singles @ [ID]))"

fun SM_clients ::
  "int list \<Rightarrow> int list \<Rightarrow> int list \<Rightarrow> ndarray2 \<times> int list \<Rightarrow> error + ndarray2 \<times> int list"
where
  "SM_clients ids codes [] state = Inr state"
| "SM_clients ids codes (ID # IDs) state =
     (case SM_client ids codes ID state of
        Inl e \<Rightarrow> Inl e
      | Inr state' \<Rightarrow> SM_clients ids codes IDs state')"

definition SM_final :: "dataframe \<Rightarrow> error + ndarray2 \<times> int list" where
  \<comment> \<open>\<^verbatim>\<open>servMove\<close> and \<^verbatim>\<open>singles\<close> when the loop over the clients has ended\<close>
  "SM_final DATA_SG =
     (case wardTeamCatCode DATA_SG of
        None \<Rightarrow> Inl (AttributeError ''wardTeamCatCode'')
      | Some codes \<Rightarrow>
          (case py_max codes of
             Inl e \<Rightarrow> Inl e
           | Inr n \<Rightarrow>
               (case np_zeros2 n of
                  Inl e \<Rightarrow> Inl e
                | Inr servMove \<Rightarrow>
                    SM_clients (ClientID DATA_SG) codes (unique (ClientID DATA_SG))
                      (servMove, [0]))))"

definition output_SM_file :: "dataframe \<Rightarrow> error + ndarray2" where
  "output_SM_file DATA_SG =
     (case SM_final DATA_SG of Inl e \<Rightarrow> Inl e | Inr (servMove, singles) \<Rightarrow> Inr servMove)"

subsection \<open>The node file\<close>

record node_row =
  NodeID :: int
  Label :: string
  MeanLoS :: rat
  MedianLoS :: rat
  NodeSetting :: string

definition group_keys :: "int list \<Rightarrow> int list" where
  \<comment> \<open>the groups of \<^verbatim>\<open>groupby\<close>, in ascending order of the key\<close>
  "group_keys codes = sort (remdups codes)"

definition group_values :: "int list \<Rightarrow> int list \<Rightarrow> int \<Rightarrow> int list" where
  "group_values codes days k = map snd (filter (\<lambda>r. fst r = k) (zip codes days))"

definition mean :: "int list \<Rightarrow> rat" where
  "mean xs = of_int (sum_list xs) / of_int (int (length xs))"

definition median :: "int list \<Rightarrow> rat" where
  "median xs =
     (let s = sort xs; n = length s in
      if odd n then of_int (s ! (n div 2))
      else (of_int (s ! (n div 2 - 1)) + of_int (s ! (n div 2))) / 2)"

text \<open>
  The mean and the median of the lengths of stay are exact rationals here, floating point
  numbers in the source. The rows of \<^verbatim>\<open>df\<close> are sorted on the code. The source's sort need not keep rows of equal
  code in their order; the stacking below fails whenever two rows have the same code, so
  the order of such rows reaches no output.
\<close>

definition output_Node_file :: "dataframe \<Rightarrow> error + node_row list" where
  "output_Node_file DATA_SG =
     (case wardTeamCatCode DATA_SG of
        None \<Rightarrow> Inl (KeyError ''wardTeamCatCode'')
      | Some codes \<Rightarrow>
          (let daysMeans =
                 map (\<lambda>k. mean (group_values codes (LoSdays DATA_SG) k)) (group_keys codes);
               daysMedians =
                 map (\<lambda>k. median (group_values codes (LoSdays DATA_SG) k)) (group_keys codes)
           in case wardTeamCat DATA_SG of
                None \<Rightarrow> Inl (AttributeError ''wardTeamCat'')
              | Some cats \<Rightarrow>
                  (case newSetting DATA_SG of
                     None \<Rightarrow> Inl (AttributeError ''newSetting'')
                   | Some settings \<Rightarrow>
                       (let df = sort_key (\<lambda>r. fst (snd r))
                                   (unique (zip cats (zip codes settings)))
                        in if length df \<noteq> length daysMeans
                           then Inl ValueError_array_dimensions
                           else Inr (map (\<lambda>((cat, code, setting), m, md).
                                            \<lparr>NodeID = code, Label = cat, MeanLoS = m,
                                             MedianLoS = md, NodeSetting = setting\<rparr>)
                                       (zip df (zip daysMeans daysMedians)))))))"

subsection \<open>One network, and the networks of a subgroup column\<close>

definition create_output_files ::
  "dataframe \<Rightarrow> error + ndarray2 \<times> edge_row list \<times> node_row list" where
  "create_output_files DATA_SG =
     (case output_SM_file DATA_SG of
        Inl e \<Rightarrow> Inl e
      | Inr servMove \<Rightarrow>
          (case output_Edge_file servMove of
             Inl e \<Rightarrow> Inl e
           | Inr edges \<Rightarrow>
               (case output_Node_file DATA_SG of
                  Inl e \<Rightarrow> Inl e
                | Inr nodes \<Rightarrow> Inr (servMove, edges, nodes))))"

definition update_dictionary ::
  "subgroup_info \<Rightarrow> dataframe \<Rightarrow> string \<Rightarrow> heap \<Rightarrow> (error + dataframe) \<times> heap" where
  "update_dictionary subgroup_info DATA_SG grp h =
     (let (df, h1) = create_new_ward_and_setting_columns subgroup_info DATA_SG grp h
      in (categorise_columns df, h1))"

definition create_network ::
  "subgroup_info \<Rightarrow> dataframe \<Rightarrow> string \<Rightarrow> heap \<Rightarrow>
   (error + ndarray2 \<times> edge_row list \<times> node_row list) \<times> heap" where
  \<comment> \<open>the two calls that make a network: \<^verbatim>\<open>update_dictionary\<close>, then \<^verbatim>\<open>create_output_files\<close>\<close>
  "create_network subgroup_info DATA_SG grp h =
     (case update_dictionary subgroup_info DATA_SG grp h of
        (Inl e, h1) \<Rightarrow> (Inl e, h1)
      | (Inr df, h1) \<Rightarrow> (create_output_files df, h1))"

definition remove_None :: "subgroup_info \<Rightarrow> heap \<Rightarrow> subgroup_info \<times> heap" where
  \<comment> \<open>the rows without a value in the column are removed\<close>
  "remove_None subgroup_info h =
     (let (df, h1) = getitem_mask (map (\<lambda>g. g \<noteq> ''None'') (COLUMN (DATA subgroup_info)))
                       (DATA subgroup_info) h
      in (subgroup_info\<lparr>DATA := df\<rparr>, h1))"

definition subgroup_DATA_SG :: "subgroup_info \<Rightarrow> string \<Rightarrow> heap \<Rightarrow> dataframe \<times> heap" where
  \<comment> \<open>the data of one network: a deep copy of the rows of the group, or of all the rows\<close>
  "subgroup_DATA_SG subgroup_info grp h =
     (if REPRESENT_REMOVED subgroup_info = 0 then
        (let (df, h1) = getitem_mask (map (\<lambda>g. g = grp) (COLUMN (DATA subgroup_info)))
                          (DATA subgroup_info) h
         in copy_deep df h1)
      else copy_deep (DATA subgroup_info) h)"

fun subgroup_networks ::
  "subgroup_info \<Rightarrow> string list \<Rightarrow> (ndarray2 \<times> edge_row list \<times> node_row list) list \<Rightarrow> heap \<Rightarrow>
   (error + (ndarray2 \<times> edge_row list \<times> node_row list) list) \<times> heap"
where
  "subgroup_networks subgroup_info [] files h = (Inr files, h)"
| "subgroup_networks subgroup_info (grp # groups) files h =
     (if grp \<noteq> ''None'' then
        (let (DATA_SG, h1) = subgroup_DATA_SG subgroup_info grp h in
         case create_network subgroup_info DATA_SG grp h1 of
           (Inl e, h2) \<Rightarrow> (Inl e, h2)
         | (Inr out, h2) \<Rightarrow> subgroup_networks subgroup_info groups (files @ [out]) h2)
      else subgroup_networks subgroup_info groups files h)"

definition create_network_data_for_subgroup ::
  "subgroup_info \<Rightarrow> heap \<Rightarrow>
   (error + (ndarray2 \<times> edge_row list \<times> node_row list) list) \<times> heap" where
  "create_network_data_for_subgroup subgroup_info h =
     (let (subgroup_info', h1) = remove_None subgroup_info h
      in subgroup_networks subgroup_info' (unique (COLUMN (DATA subgroup_info'))) [] h1)"

subsection \<open>Vocabulary of the properties\<close>

definition is_square :: "ndarray2 \<Rightarrow> nat \<Rightarrow> bool" where
  "is_square servMove N \<longleftrightarrow> length servMove = N \<and> (\<forall>r \<in> set servMove. length r = N)"

definition column_cells :: "ndarray2 \<Rightarrow> nat \<Rightarrow> nat list \<Rightarrow> (nat \<times> nat \<times> nat) list" where
  \<comment> \<open>the used cells of column \<open>i\<close> among the rows \<open>js\<close>, as source, target, activity\<close>
  "column_cells servMove i js =
     concat (map (\<lambda>j. if 0 < servMove ! j ! i then [(j + 1, i + 1, servMove ! j ! i)] else []) js)"

definition used_cells :: "ndarray2 \<Rightarrow> nat \<Rightarrow> nat list \<Rightarrow> (nat \<times> nat \<times> nat) list" where
  "used_cells servMove N cols = concat (map (\<lambda>i. column_cells servMove i [0..<N]) cols)"

definition cell_before :: "nat \<times> nat \<times> nat \<Rightarrow> nat \<times> nat \<times> nat \<Rightarrow> bool" where
  \<comment> \<open>the order of the targets, and of the sources under one target\<close>
  "cell_before a b \<longleftrightarrow>
     fst (snd a) < fst (snd b) \<or> (fst (snd a) = fst (snd b) \<and> fst a < fst b)"

definition edge_table :: "(nat \<times> nat \<times> nat) list \<Rightarrow> edge_row list" where
  "edge_table cells =
     map (\<lambda>((s, t, v), k).
            \<lparr>Source = s, Target = t, Type = ''Directed'', EdgeId = k, Weight = v\<rparr>)
       (zip cells [0..<length cells])"

definition cat_code :: "string list \<Rightarrow> string \<Rightarrow> int" where
  \<comment> \<open>the numerical ID that the column of labels gives the ward team \<open>x\<close>\<close>
  "cat_code labels x = int (index_of (categories labels) x) + 1"

definition example_DATA_SG :: dataframe where
  \<comment> \<open>client 1 moves Ward1, Ward2, Ward2, Ward3; client 2 has one admission\<close>
  "example_DATA_SG =
     \<lparr>ClientID = [1, 1, 1, 1, 2],
      COLUMN = [''North'', ''North'', ''North'', ''South'', ''North''],
      LoSdays = [3, 10, 4, 7, 1],
      WardTeam = 0,
      Setting = 1,
      newWardTeam = Some [''Ward1'', ''Ward2'', ''Ward2'', ''Ward3'', ''Ward2''],
      newSetting = Some [''Inpatient'', ''Community'', ''Community'', ''OOA'', ''Community''],
      wardTeamCat = None,
      wardTeamCatCode = None\<rparr>"

definition count_moves :: "int list \<Rightarrow> nat \<Rightarrow> nat \<Rightarrow> nat" where
  \<comment> \<open>the places of the code sequence \<open>cs\<close> where code \<open>r + 1\<close> is followed by code \<open>c + 1\<close>\<close>
  "count_moves cs r c =
     length (filter (\<lambda>(a, b). a = int r + 1 \<and> b = int c + 1) (zip cs (tl cs)))"

definition sum_matrix :: "ndarray2 \<Rightarrow> nat" where
  "sum_matrix servMove = sum_list (map sum_list servMove)"

definition bump :: "ndarray2 \<Rightarrow> nat \<Rightarrow> nat \<Rightarrow> ndarray2" where
  \<comment> \<open>the array with one more in the cell \<open>[r][c]\<close>\<close>
  "bump m r c = m[r := (m ! r)[c := m ! r ! c + 1]]"

definition SM_size :: "int list \<Rightarrow> nat" where
  \<comment> \<open>the side of the service movement array\<close>
  "SM_size codes = nat (Max (set codes))"

definition example_coded :: dataframe where
  \<comment> \<open>the example with its categories and codes\<close>
  "example_coded =
     example_DATA_SG\<lparr>wardTeamCat := Some [''Ward1'', ''Ward2'', ''Ward2'', ''Ward3'', ''Ward2''],
                      wardTeamCatCode := Some [1, 2, 2, 3, 2]\<rparr>"

definition empty_DATA_SG :: dataframe where
  "empty_DATA_SG =
     \<lparr>ClientID = [], COLUMN = [], LoSdays = [], WardTeam = 0, Setting = 1,
      newWardTeam = None, newSetting = None, wardTeamCat = None, wardTeamCatCode = None\<rparr>"

definition whole_network :: "dataframe \<Rightarrow> subgroup_info" where
  "whole_network df = \<lparr>DATA = df, REPRESENT_REMOVED = 0, SUBGROUP_NODE_NAME = ''''\<rparr>"

definition two_settings_DATA_SG :: "string \<Rightarrow> dataframe" where
  "two_settings_DATA_SG label =
     \<lparr>ClientID = [1, 1], COLUMN = [''North'', ''North''], LoSdays = [3, 10],
      WardTeam = 0, Setting = 1,
      newWardTeam = Some [label, label], newSetting = Some [''Inpatient'', ''OOA''],
      wardTeamCat = None, wardTeamCatCode = None\<rparr>"

definition node_file_of :: "dataframe \<Rightarrow> error + node_row list" where
  "node_file_of DATA_SG =
     (case categorise_columns DATA_SG of Inl e \<Rightarrow> Inl e | Inr df \<Rightarrow> output_Node_file df)"

definition recoded_upto ::
  "(string \<Rightarrow> string) \<Rightarrow> string \<Rightarrow> string set \<Rightarrow> string list \<Rightarrow> string list \<Rightarrow> string list" where
  \<comment> \<open>the array when the values in \<open>D\<close> have had their round of the loop\<close>
  "recoded_upto f grp D col a =
     map (\<lambda>(x, g). if g \<in> D \<and> g \<noteq> grp then f g else x) (zip a col)"

definition recoded ::
  "(string \<Rightarrow> string) \<Rightarrow> string \<Rightarrow> string list \<Rightarrow> string list \<Rightarrow> string list" where
  \<comment> \<open>the array with \<open>f v\<close> in the rows of every value \<open>v\<close> other than the group\<close>
  "recoded f grp col a = map (\<lambda>(x, g). if g = grp then x else f g) (zip a col)"

definition extends :: "heap \<Rightarrow> heap \<Rightarrow> bool" where
  \<comment> \<open>the store \<open>h'\<close> has every array of \<open>h\<close>, unchanged, and perhaps new ones\<close>
  "extends h h' \<longleftrightarrow> length h \<le> length h' \<and> take (length h) h' = h"

definition example_heap :: heap where
  \<comment> \<open>the arrays of the columns \<^verbatim>\<open>WardTeam\<close> and \<^verbatim>\<open>Setting\<close> of \<open>example_DATA\<close>\<close>
  "example_heap =
     [[''Ward1'', ''Ward2'', ''Ward9'', ''Ward3'', ''Ward2''],
      [''Inpatient'', ''Community'', ''OOA'', ''OOA'', ''Community'']]"

definition example_DATA :: dataframe where
  \<comment> \<open>data as they are read: two localities and one row without a locality\<close>
  "example_DATA =
     \<lparr>ClientID = [1, 1, 1, 1, 2],
      COLUMN = [''North'', ''North'', ''None'', ''South'', ''North''],
      LoSdays = [3, 10, 2, 7, 1],
      WardTeam = 0,
      Setting = 1,
      newWardTeam = None, newSetting = None, wardTeamCat = None, wardTeamCatCode = None\<rparr>"

definition example_locality :: subgroup_info where
  \<comment> \<open>a network for each locality, the other localities shown as one node each\<close>
  "example_locality =
     \<lparr>DATA = example_DATA, REPRESENT_REMOVED = 1, SUBGROUP_NODE_NAME = ''Locality ''\<rparr>"

section \<open>Properties\<close>

subsection \<open>The edge file\<close>

lemma getitem2_square:
  "is_square m N \<Longrightarrow> j < N \<Longrightarrow> i < N \<Longrightarrow> getitem2 m j i = Inr (m ! j ! i)"
  by (simp add: getitem2_def is_square_def)

lemma edges_inner_square:
  "is_square m N \<Longrightarrow> i < N \<Longrightarrow> \<forall>j \<in> set js. j < N \<Longrightarrow>
   edges_inner m i js acc = Inr (acc @ column_cells m i js)"
  by (induction js arbitrary: acc) (simp_all add: column_cells_def getitem2_square)

lemma edges_outer_square:
  "is_square m N \<Longrightarrow> \<forall>i \<in> set cols. i < N \<Longrightarrow>
   edges_outer m N cols acc = Inr (acc @ used_cells m N cols)"
  by (induction cols arbitrary: acc) (simp_all add: used_cells_def edges_inner_square)

lemma output_Edge_file_table:
  assumes "is_square m N"
  shows "output_Edge_file m = Inr (edge_table (used_cells m N [0..<N]))"
proof -
  have N: "length m = N"
    using assms by (simp add: is_square_def)
  have "edges_outer m N [0..<N] [(0, 0, 0)] = Inr ([(0, 0, 0)] @ used_cells m N [0..<N])"
    by (rule edges_outer_square[OF assms]) simp
  then show ?thesis
    apply (simp add: output_Edge_file_def N Let_def edge_columns_def edge_table_def)
    apply (rule nth_equalityI)
     apply simp
    apply (simp add: split_beta)
    done
qed

lemma set_column_cells:
  "set (column_cells m i js) = {(j + 1, i + 1, m ! j ! i) | j. j \<in> set js \<and> 0 < m ! j ! i}"
  by (auto simp: column_cells_def)

lemma set_used_cells:
  "set (used_cells m N cols) =
     {(j + 1, i + 1, m ! j ! i) | j i. i \<in> set cols \<and> j < N \<and> 0 < m ! j ! i}"
  by (auto simp: used_cells_def set_column_cells)

lemma sorted_column_cells:
  "sorted_wrt (<) js \<Longrightarrow> sorted_wrt (\<lambda>a b. fst a < fst b) (column_cells m i js)"
proof (induction js)
  case Nil
  then show ?case by (simp add: column_cells_def)
next
  case (Cons j js)
  then have "sorted_wrt (\<lambda>a b. fst a < fst b) (column_cells m i js)"
    by simp
  moreover have "\<forall>x \<in> set (column_cells m i js). j + 1 < fst x"
    using Cons.prems by (auto simp: set_column_cells)
  ultimately show ?case
    using Cons.prems by (simp add: column_cells_def)
qed

lemma sorted_used_cells:
  "sorted_wrt (<) cols \<Longrightarrow> sorted_wrt cell_before (used_cells m N cols)"
proof (induction cols)
  case Nil
  then show ?case by (simp add: used_cells_def)
next
  case (Cons i cols)
  have col: "sorted_wrt cell_before (column_cells m i [0..<N])"
  proof -
    have s: "sorted_wrt (\<lambda>a b. fst a < fst b) (column_cells m i [0..<N])"
      by (rule sorted_column_cells) simp
    have t: "fst (snd x) = i + 1" if "x \<in> set (column_cells m i [0..<N])" for x
      using that by (auto simp: set_column_cells)
    show ?thesis
      by (rule sorted_wrt_mono_rel[OF _ s]) (simp add: cell_before_def t)
  qed
  have rest: "sorted_wrt cell_before (used_cells m N cols)"
    using Cons by simp
  have cross:
    "\<forall>x \<in> set (column_cells m i [0..<N]). \<forall>y \<in> set (used_cells m N cols). cell_before x y"
    using Cons.prems by (auto simp: set_column_cells set_used_cells cell_before_def)
  have "used_cells m N (i # cols) = column_cells m i [0..<N] @ used_cells m N cols"
    by (simp add: used_cells_def)
  then show ?case
    using col rest cross by (simp add: sorted_wrt_append)
qed

lemma sorted_wrt_neq_distinct: "sorted_wrt (\<lambda>a b. a \<noteq> b) xs \<Longrightarrow> distinct xs"
  by (induction xs) auto

lemma distinct_used_cells:
  assumes "sorted_wrt (<) cols"
  shows "distinct (map (\<lambda>c. (fst c, fst (snd c))) (used_cells m N cols))"
proof -
  have "sorted_wrt (\<lambda>a b. a \<noteq> b) (map (\<lambda>c. (fst c, fst (snd c))) (used_cells m N cols))"
    unfolding sorted_wrt_map
    by (rule sorted_wrt_mono_rel[OF _ sorted_used_cells[OF assms]]) (auto simp: cell_before_def)
  then show ?thesis
    by (rule sorted_wrt_neq_distinct)
qed

lemma length_edge_table [simp]: "length (edge_table cells) = length cells"
  by (simp add: edge_table_def)

lemma nth_edge_table:
  "k < length cells \<Longrightarrow>
   edge_table cells ! k =
     \<lparr>Source = fst (cells ! k), Target = fst (snd (cells ! k)), Type = ''Directed'',
      EdgeId = k, Weight = snd (snd (cells ! k))\<rparr>"
  by (simp add: edge_table_def split_beta)

lemma map_Source_Target_edge_table:
  "map (\<lambda>e. (Source e, Target e)) (edge_table cells) = map (\<lambda>c. (fst c, fst (snd c))) cells"
  by (rule nth_equalityI) (simp_all add: nth_edge_table)

lemma map_cell_edge_table:
  "map (\<lambda>e. (Source e, Target e, Weight e)) (edge_table cells) = cells"
  by (rule nth_equalityI) (simp_all add: nth_edge_table)

lemma map_EdgeId_edge_table: "map EdgeId (edge_table cells) = [0..<length cells]"
  by (rule nth_equalityI) (simp_all add: nth_edge_table)

lemma set_edge_table_cell:
  "e \<in> set (edge_table cells) \<Longrightarrow> (Source e, Target e, Weight e) \<in> set cells"
  by (auto simp: in_set_conv_nth nth_edge_table)

lemma cell_in_edge_table:
  assumes "(s, t, v) \<in> set cells"
  shows "\<exists>e \<in> set (edge_table cells). Source e = s \<and> Target e = t \<and> Weight e = v"
proof -
  have "(s, t, v) \<in> set (map (\<lambda>e. (Source e, Target e, Weight e)) (edge_table cells))"
    using assms by (simp only: map_cell_edge_table)
  then show ?thesis by auto
qed

lemma sorted_edge_table:
  "sorted_wrt cell_before cells \<Longrightarrow>
   sorted_wrt (\<lambda>a b. Target a < Target b \<or> (Target a = Target b \<and> Source a < Source b))
     (edge_table cells)"
  by (simp add: sorted_wrt_iff_nth_less nth_edge_table cell_before_def)

lemma card_used_cells:
  "length (used_cells m N [0..<N]) = card {(s, t). s < N \<and> t < N \<and> 0 < m ! s ! t}"
proof -
  let ?f = "\<lambda>c::nat \<times> nat \<times> nat. (fst c, fst (snd c))"
  have d: "distinct (map ?f (used_cells m N [0..<N]))"
    by (rule distinct_used_cells) simp
  have "length (used_cells m N [0..<N]) = length (map ?f (used_cells m N [0..<N]))"
    by simp
  also have "\<dots> = card (set (map ?f (used_cells m N [0..<N])))"
    using d by (simp only: distinct_card)
  also have "set (map ?f (used_cells m N [0..<N])) =
      (\<lambda>(s, t). (s + 1, t + 1)) ` {(s, t). s < N \<and> t < N \<and> 0 < m ! s ! t}"
    by (auto simp: set_used_cells image_iff)
  also have "card \<dots> = card {(s, t). s < N \<and> t < N \<and> 0 < m ! s ! t}"
    by (rule card_image) (auto simp: inj_on_def)
  finally show ?thesis .
qed

text \<open>
  C2. For an \<open>N \<times> N\<close> array of frequencies the edge file has one row for each cell that
  is greater than zero and no other row: the number of rows is the number of such cells,
  every row carries the value of its cell \<open>servMove[Source - 1, Target - 1]\<close> as its
  weight, every such cell has a row, a cell on the diagonal like any other, and no cell
  has two rows.
\<close>

theorem edges_are_the_nonzero_cells:
  assumes "is_square servMove N"
  shows "\<exists>edges. output_Edge_file servMove = Inr edges
     \<and> length edges = card {(s, t). s < N \<and> t < N \<and> 0 < servMove ! s ! t}
     \<and> (\<forall>e \<in> set edges. 1 \<le> Source e \<and> Source e \<le> N \<and> 1 \<le> Target e \<and> Target e \<le> N
            \<and> 0 < Weight e \<and> Weight e = servMove ! (Source e - 1) ! (Target e - 1))
     \<and> (\<forall>s < N. \<forall>t < N. 0 < servMove ! s ! t \<longrightarrow>
            (\<exists>e \<in> set edges. Source e = s + 1 \<and> Target e = t + 1))
     \<and> (\<forall>s < N. 0 < servMove ! s ! s \<longrightarrow>
            (\<exists>e \<in> set edges. Source e = s + 1 \<and> Target e = s + 1))
     \<and> distinct (map (\<lambda>e. (Source e, Target e)) edges)"
proof -
  let ?cells = "used_cells servMove N [0..<N]"
  let ?edges = "edge_table ?cells"
  have run: "output_Edge_file servMove = Inr ?edges"
    by (rule output_Edge_file_table[OF assms])
  have len: "length ?edges = card {(s, t). s < N \<and> t < N \<and> 0 < servMove ! s ! t}"
    by (simp add: card_used_cells)
  have sound: "\<forall>e \<in> set ?edges. 1 \<le> Source e \<and> Source e \<le> N \<and> 1 \<le> Target e \<and> Target e \<le> N
            \<and> 0 < Weight e \<and> Weight e = servMove ! (Source e - 1) ! (Target e - 1)"
  proof
    fix e
    assume "e \<in> set ?edges"
    then have "(Source e, Target e, Weight e) \<in> set ?cells"
      by (rule set_edge_table_cell)
    then show "1 \<le> Source e \<and> Source e \<le> N \<and> 1 \<le> Target e \<and> Target e \<le> N
            \<and> 0 < Weight e \<and> Weight e = servMove ! (Source e - 1) ! (Target e - 1)"
      by (auto simp: set_used_cells)
  qed
  have complete: "\<exists>e \<in> set ?edges. Source e = s + 1 \<and> Target e = t + 1"
    if "s < N" "t < N" "0 < servMove ! s ! t" for s t
  proof -
    have "(s + 1, t + 1, servMove ! s ! t) \<in> set ?cells"
      using that by (auto simp: set_used_cells)
    from cell_in_edge_table[OF this] show ?thesis
      by blast
  qed
  have dist: "distinct (map (\<lambda>e. (Source e, Target e)) ?edges)"
    unfolding map_Source_Target_edge_table by (rule distinct_used_cells) simp
  show ?thesis
    using run len sound complete dist by blast
qed

theorem edges_are_the_nonzero_cells_witness:
  "is_square [[0, 1, 0], [0, 1, 1], [0, 0, 0]] 3 \<and>
   (\<exists>edges. output_Edge_file [[0, 1, 0], [0, 1, 1], [0, 0, 0]] = Inr edges
      \<and> length edges = card {(s, t). s < 3 \<and> t < 3 \<and> 0 < [[0, 1, 0], [0, 1, 1], [0, 0, 0 :: nat]] ! s ! t}
      \<and> distinct (map (\<lambda>e. (Source e, Target e)) edges))"
proof -
  have sq: "is_square [[0, 1, 0], [0, 1, 1], [0, 0, 0]] 3"
    by (simp add: is_square_def)
  from edges_are_the_nonzero_cells[OF sq] sq show ?thesis
    by blast
qed

lemma used_cells_loops:
  "used_cells m N [0..<N] =
     [(s + 1, t + 1, m ! s ! t). t \<leftarrow> [0..<N], s \<leftarrow> [0..<N], 0 < m ! s ! t]"
  by (simp add: used_cells_def column_cells_def)

lemma Type_edge_table: "e \<in> set (edge_table cells) \<Longrightarrow> Type e = ''Directed''"
  by (auto simp: in_set_conv_nth nth_edge_table)

lemma example_cells:
  "[(s + 1, t + 1, [[0, 1, 0], [0, 1, 1], [0, 0, 0 :: nat]] ! s ! t).
      t \<leftarrow> [0..<3], s \<leftarrow> [0..<3], 0 < [[0, 1, 0], [0, 1, 1], [0, 0, 0 :: nat]] ! s ! t] =
   [(1, 2, 1), (2, 2, 1), (2, 3, 1)]"
  by (simp add: upt_rec numeral_nat)

text \<open>
  C3. For an \<open>N \<times> N\<close> array the rows of the edge file are the cells greater than zero
  in the order in which the loops meet them, the target ascending in the outer loop and
  the source ascending in the inner one, and the edge id of a row is its position in
  that order, counted from 0.
\<close>

theorem edge_ids_follow_the_emission_order:
  assumes "is_square servMove N"
  shows "\<exists>edges. output_Edge_file servMove = Inr edges
     \<and> map (\<lambda>e. (Source e, Target e, Weight e)) edges =
         [(s + 1, t + 1, servMove ! s ! t). t \<leftarrow> [0..<N], s \<leftarrow> [0..<N], 0 < servMove ! s ! t]
     \<and> map EdgeId edges = [0..<length edges]
     \<and> (\<forall>k < length edges. EdgeId (edges ! k) = k)
     \<and> (\<forall>e \<in> set edges. Type e = ''Directed'')
     \<and> sorted_wrt (\<lambda>a b. Target a < Target b \<or> (Target a = Target b \<and> Source a < Source b))
          edges"
proof -
  let ?cells = "used_cells servMove N [0..<N]"
  let ?edges = "edge_table ?cells"
  have run: "output_Edge_file servMove = Inr ?edges"
    by (rule output_Edge_file_table[OF assms])
  have rows: "map (\<lambda>e. (Source e, Target e, Weight e)) ?edges =
      [(s + 1, t + 1, servMove ! s ! t). t \<leftarrow> [0..<N], s \<leftarrow> [0..<N], 0 < servMove ! s ! t]"
    unfolding map_cell_edge_table by (rule used_cells_loops)
  have ids: "map EdgeId ?edges = [0..<length ?edges]"
    by (simp add: map_EdgeId_edge_table)
  have nth: "\<forall>k < length ?edges. EdgeId (?edges ! k) = k"
    by (simp add: nth_edge_table)
  have ty: "\<forall>e \<in> set ?edges. Type e = ''Directed''"
    by (simp add: Type_edge_table)
  have ord: "sorted_wrt (\<lambda>a b. Target a < Target b \<or> (Target a = Target b \<and> Source a < Source b))
      ?edges"
    by (rule sorted_edge_table, rule sorted_used_cells) simp
  show ?thesis
    by (rule exI[of _ ?edges]) (intro conjI run rows ids nth ty ord)
qed

theorem edge_ids_follow_the_emission_order_witness:
  "is_square [[0, 1, 0], [0, 1, 1], [0, 0, 0]] 3 \<and>
   (\<exists>edges. output_Edge_file [[0, 1, 0], [0, 1, 1], [0, 0, 0]] = Inr edges
      \<and> map (\<lambda>e. (Source e, Target e, Weight e)) edges = [(1, 2, 1), (2, 2, 1), (2, 3, 1)]
      \<and> map EdgeId edges = [0, 1, 2])"
proof -
  have sq: "is_square [[0, 1, 0], [0, 1, 1], [0, 0, 0]] 3"
    by (simp add: is_square_def)
  from edge_ids_follow_the_emission_order[OF sq]
  obtain edges where e: "output_Edge_file [[0, 1, 0], [0, 1, 1], [0, 0, 0]] = Inr edges"
    "map (\<lambda>e. (Source e, Target e, Weight e)) edges = [(1, 2, 1), (2, 2, 1), (2, 3, 1)]"
    "map EdgeId edges = [0..<length edges]"
    unfolding example_cells by (elim exE conjE) (rule that, assumption+)
  have "length edges = 3"
    using arg_cong[OF e(2), of length] by simp
  then have "map EdgeId edges = [0, 1, 2]"
    using e(3) by (simp add: upt_rec numeral_nat)
  with sq e(1,2) show ?thesis
    by (intro conjI exI[of _ edges])
qed

subsection \<open>The numerical ID of a ward team\<close>

lemma index_of_less: "x \<in> set xs \<Longrightarrow> index_of xs x < length xs"
  by (induction xs) auto

lemma nth_index_of: "x \<in> set xs \<Longrightarrow> xs ! index_of xs x = x"
  by (induction xs) auto

lemma index_of_nth: "distinct xs \<Longrightarrow> i < length xs \<Longrightarrow> index_of xs (xs ! i) = i"
proof (induction xs arbitrary: i)
  case Nil then show ?case by simp
next
  case (Cons y ys)
  then show ?case by (cases i) auto
qed

lemma set_categories [simp]: "set (categories labels) = set labels"
  by (simp add: categories_def)

lemma distinct_categories [simp]: "distinct (categories labels)"
  by (simp add: categories_def)

lemma sorted_categories [simp]: "sorted (categories labels)"
  by (simp add: categories_def)

lemma length_categories: "length (categories labels) = card (set labels)"
  using distinct_card[of "categories labels"] by simp

lemma categories_cong: "set xs = set ys \<Longrightarrow> categories xs = categories ys"
  by (rule sorted_distinct_set_unique) simp_all

lemma categories_nth_less:
  assumes "i < length (categories labels)" "j < length (categories labels)"
  shows "categories labels ! i < categories labels ! j \<longleftrightarrow> i < j"
proof -
  have s: "sorted_wrt (<) (categories labels)"
    by (simp add: strict_sorted_iff)
  show ?thesis
  proof
    assume lt: "categories labels ! i < categories labels ! j"
    show "i < j"
    proof (rule ccontr)
      assume "\<not> i < j"
      then have "j = i \<or> j < i" by arith
      then show False
      proof
        assume "j = i" with lt show False by simp
      next
        assume "j < i"
        with s assms have "categories labels ! j < categories labels ! i"
          by (simp add: sorted_wrt_iff_nth_less)
        with lt show False by simp
      qed
    qed
  next
    assume "i < j"
    with s assms show "categories labels ! i < categories labels ! j"
      by (simp add: sorted_wrt_iff_nth_less)
  qed
qed

lemma cat_code_less_iff:
  assumes "a \<in> set labels" "b \<in> set labels"
  shows "cat_code labels a < cat_code labels b \<longleftrightarrow> a < b"
proof -
  let ?cs = "categories labels"
  have ia: "index_of ?cs a < length ?cs" and ib: "index_of ?cs b < length ?cs"
    using assms by (simp_all add: index_of_less)
  have "?cs ! index_of ?cs a < ?cs ! index_of ?cs b \<longleftrightarrow> index_of ?cs a < index_of ?cs b"
    by (rule categories_nth_less[OF ia ib])
  moreover have "?cs ! index_of ?cs a = a" "?cs ! index_of ?cs b = b"
    using assms by (simp_all add: nth_index_of)
  ultimately have "a < b \<longleftrightarrow> index_of ?cs a < index_of ?cs b"
    by simp
  then show ?thesis
    unfolding cat_code_def by linarith
qed

lemma cat_code_bij:
  "bij_betw (cat_code labels) (set labels) {1..int (card (set labels))}"
proof (rule bij_betw_byWitness[where f' = "\<lambda>k. categories labels ! nat (k - 1)"])
  show "\<forall>a\<in>set labels. categories labels ! nat (cat_code labels a - 1) = a"
    by (simp add: cat_code_def nth_index_of)
  show "\<forall>k\<in>{1..int (card (set labels))}. cat_code labels (categories labels ! nat (k - 1)) = k"
    by (auto simp: cat_code_def index_of_nth length_categories)
  show "cat_code labels ` set labels \<subseteq> {1..int (card (set labels))}"
  proof
    fix k assume "k \<in> cat_code labels ` set labels"
    then obtain a where a: "a \<in> set labels" "k = cat_code labels a"
      by auto
    then have "index_of (categories labels) a < card (set labels)"
      using index_of_less[of a "categories labels"] by (simp add: length_categories)
    then show "k \<in> {1..int (card (set labels))}"
      using a(2) by (simp add: cat_code_def)
  qed
  show "(\<lambda>k. categories labels ! nat (k - 1)) ` {1..int (card (set labels))} \<subseteq> set labels"
  proof
    fix x assume "x \<in> (\<lambda>k. categories labels ! nat (k - 1)) ` {1..int (card (set labels))}"
    then obtain k where k: "1 \<le> k" "k \<le> int (card (set labels))" "x = categories labels ! nat (k - 1)"
      by auto
    then have "nat (k - 1) < length (categories labels)"
      by (simp add: length_categories)
    then have "x \<in> set (categories labels)"
      unfolding k(3) by (rule nth_mem)
    then show "x \<in> set labels" by simp
  qed
qed

lemma categorise_columns_codes:
  "newWardTeam df = Some labels \<Longrightarrow>
   categorise_columns df = Inr (df\<lparr>wardTeamCat := Some labels, wardTeamCatCode := Some (map (cat_code labels) labels)\<rparr>)"
  by (simp add: categorise_columns_def cat_codes_def cat_code_def)

text \<open>
  C4. The numerical IDs are a bijection between the distinct labels of the column and
  \<open>1..N\<close>, they are ordered as the labels are in the lexicographic order of strings
  (\<open><\<close> on \<open>string\<close> is that order, over the order of the character codes), and they
  depend on the set of labels only, so not on the order of the rows.
\<close>

theorem category_codes_order_isomorphism:
  assumes "newWardTeam DATA_SG = Some labels"
  shows "\<exists>df. categorise_columns DATA_SG = Inr df
      \<and> wardTeamCat df = Some labels
      \<and> wardTeamCatCode df = Some (map (cat_code labels) labels)
      \<and> bij_betw (cat_code labels) (set labels) {1..int (card (set labels))}
      \<and> (\<forall>a \<in> set labels. \<forall>b \<in> set labels. cat_code labels a < cat_code labels b \<longleftrightarrow> a < b)
      \<and> (\<forall>labels'. set labels' = set labels \<longrightarrow> cat_code labels' = cat_code labels)"
proof -
  have indep: "\<forall>labels'. set labels' = set labels \<longrightarrow> cat_code labels' = cat_code labels"
  proof (intro allI impI)
    fix labels' :: "string list"
    assume "set labels' = set labels"
    then have "categories labels' = categories labels"
      by (rule categories_cong)
    then show "cat_code labels' = cat_code labels"
      by (simp add: cat_code_def fun_eq_iff)
  qed
  let ?df = "DATA_SG\<lparr>wardTeamCat := Some labels,
                      wardTeamCatCode := Some (map (cat_code labels) labels)\<rparr>"
  have run: "categorise_columns DATA_SG = Inr ?df"
    by (rule categorise_columns_codes[OF assms])
  have cols: "wardTeamCat ?df = Some labels"
    "wardTeamCatCode ?df = Some (map (cat_code labels) labels)"
    by simp_all
  have iso: "\<forall>a \<in> set labels. \<forall>b \<in> set labels.
      cat_code labels a < cat_code labels b \<longleftrightarrow> a < b"
    by (simp add: cat_code_less_iff)
  show ?thesis
    using run cols cat_code_bij[of labels] iso indep by blast
qed

theorem category_codes_order_isomorphism_witness:
  "newWardTeam example_DATA_SG = Some [''Ward1'', ''Ward2'', ''Ward2'', ''Ward3'', ''Ward2''] \<and>
   (\<exists>df. categorise_columns example_DATA_SG = Inr df
      \<and> wardTeamCatCode df = Some [1, 2, 2, 3, 2])"
proof -
  have l: "newWardTeam example_DATA_SG = Some [''Ward1'', ''Ward2'', ''Ward2'', ''Ward3'', ''Ward2'']"
    by (simp add: example_DATA_SG_def)
  have c: "map (cat_code [''Ward1'', ''Ward2'', ''Ward2'', ''Ward3'', ''Ward2''])
             [''Ward1'', ''Ward2'', ''Ward2'', ''Ward3'', ''Ward2''] = [1, 2, 2, 3, 2]"
    by (simp add: cat_code_def categories_def)
  from category_codes_order_isomorphism[OF l] l show ?thesis
    unfolding c by blast
qed

subsection \<open>The service movement file\<close>

lemma np_index_in_range: "0 \<le> i \<Longrightarrow> i < int n \<Longrightarrow> np_index n i = Inr (nat i)"
  by (simp add: np_index_def)

lemma is_square_row: "is_square m N \<Longrightarrow> r < N \<Longrightarrow> length (m ! r) = N"
  by (simp add: is_square_def)

lemma increment_in_range:
  assumes "is_square m N" "1 \<le> a" "a \<le> int N" "1 \<le> b" "b \<le> int N"
  shows "increment m (a - 1) (b - 1) = Inr (bump m (nat (a - 1)) (nat (b - 1)))"
proof -
  have len: "length m = N"
    using assms(1) by (simp add: is_square_def)
  have "nat (a - 1) < N"
    using assms by auto
  then have row: "length (m ! nat (a - 1)) = N"
    by (rule is_square_row[OF assms(1)])
  show ?thesis
    using assms by (simp add: increment_def len row np_index_in_range bump_def)
qed

lemma is_square_bump:
  assumes "is_square m N"
  shows "is_square (bump m r c) N"
proof -
  have len: "length m = N" and rows: "\<And>x. x \<in> set m \<Longrightarrow> length x = N"
    using assms by (auto simp: is_square_def)
  have "length x = N" if "x \<in> set (bump m r c)" for x
  proof -
    have "set (bump m r c) \<subseteq> insert ((m ! r)[c := m ! r ! c + 1]) (set m)"
      unfolding bump_def by (rule set_update_subset_insert)
    with that have "x \<in> insert ((m ! r)[c := m ! r ! c + 1]) (set m)"
      by (rule subsetD[rotated])
    then show ?thesis
    proof
      assume x: "x = (m ! r)[c := m ! r ! c + 1]"
      show ?thesis
      proof (cases "r < length m")
        case True
        then show ?thesis using x rows[OF nth_mem[OF True]] by simp
      next
        case False
        then have "bump m r c = m" by (simp add: bump_def list_update_beyond)
        with that show ?thesis using rows by simp
      qed
    next
      assume "x \<in> set m"
      then show ?thesis by (rule rows)
    qed
  qed
  then show ?thesis
    by (simp add: is_square_def bump_def len)
qed

lemma nth_bump:
  assumes "is_square m N" "r < N" "c < N" "r' < N" "c' < N"
  shows "bump m r c ! r' ! c' = m ! r' ! c' + (if r' = r \<and> c' = c then 1 else 0)"
proof -
  have len: "length m = N"
    using assms(1) by (simp add: is_square_def)
  have row: "length (m ! r) = N"
    by (rule is_square_row[OF assms(1,2)])
  show ?thesis
    using assms by (auto simp: bump_def len row nth_list_update)
qed

lemma sum_list_update_Suc:
  fixes xs :: "nat list"
  shows "k < length xs \<Longrightarrow> sum_list (xs[k := xs ! k + 1]) = sum_list xs + 1"
proof (induction xs arbitrary: k)
  case Nil then show ?case by simp
next
  case (Cons x xs) then show ?case by (cases k) auto
qed

lemma sum_matrix_bump:
  assumes "is_square m N" "r < N" "c < N"
  shows "sum_matrix (bump m r c) = sum_matrix m + 1"
proof -
  have len: "r < length m"
    using assms by (simp add: is_square_def)
  have row: "c < length (m ! r)"
    using assms by (simp add: is_square_row)
  have "sum_list ((m ! r)[c := m ! r ! c + 1]) = sum_list (m ! r) + 1"
    by (rule sum_list_update_Suc[OF row])
  then have "map sum_list (bump m r c) = (map sum_list m)[r := map sum_list m ! r + 1]"
    using len by (simp add: bump_def map_update)
  moreover have "sum_list ((map sum_list m)[r := map sum_list m ! r + 1]) = sum_list (map sum_list m) + 1"
    by (rule sum_list_update_Suc) (simp add: len)
  ultimately show ?thesis
    by (simp add: sum_matrix_def)
qed

lemma length_filter_Cons:
  "length (filter P (x # xs)) = (if P x then 1 else 0) + length (filter P xs)"
  by simp

lemma count_moves_Cons2:
  "count_moves (a # b # cs) r c =
     (if a = int r + 1 \<and> b = int c + 1 then 1 else 0) + count_moves (b # cs) r c"
proof -
  have "zip (a # b # cs) (tl (a # b # cs)) = (a, b) # zip (b # cs) (tl (b # cs))"
    by simp
  then show ?thesis
    unfolding count_moves_def by (simp only: length_filter_Cons split_conv)
qed

lemma count_moves_short [simp]: "count_moves [] r c = 0" "count_moves [a] r c = 0"
  by (simp_all add: count_moves_def)

lemma record_moves_in_range:
  assumes "is_square m N" "\<forall>c \<in> set cs. 1 \<le> c \<and> c \<le> int N"
  shows "\<exists>m'. record_moves cs m = Inr m' \<and> is_square m' N
     \<and> (\<forall>r < N. \<forall>c < N. m' ! r ! c = m ! r ! c + count_moves cs r c)
     \<and> sum_matrix m' = sum_matrix m + (length cs - 1)"
  using assms
proof (induction cs m rule: record_moves.induct)
  case (1 a b cs m)
  let ?m1 = "bump m (nat (a - 1)) (nat (b - 1))"
  have a: "1 \<le> a" "a \<le> int N" and b: "1 \<le> b" "b \<le> int N"
    using "1.prems"(2) by auto
  have inc: "increment m (a - 1) (b - 1) = Inr ?m1"
    by (rule increment_in_range[OF "1.prems"(1) a b])
  have sq1: "is_square ?m1 N"
    by (rule is_square_bump[OF "1.prems"(1)])
  have ra: "nat (a - 1) < N" and rb: "nat (b - 1) < N"
    using a b by auto
  have rest: "\<forall>c \<in> set (b # cs). 1 \<le> c \<and> c \<le> int N"
    using "1.prems"(2) by simp
  from "1.IH"[OF inc sq1 rest]
  obtain m' where m': "record_moves (b # cs) ?m1 = Inr m'" "is_square m' N"
    "\<forall>r < N. \<forall>c < N. m' ! r ! c = ?m1 ! r ! c + count_moves (b # cs) r c"
    "sum_matrix m' = sum_matrix ?m1 + (length (b # cs) - 1)"
    by blast
  have run: "record_moves (a # b # cs) m = Inr m'"
    using inc m'(1) by simp
  have cell: "m' ! r ! c = m ! r ! c + count_moves (a # b # cs) r c" if "r < N" "c < N" for r c
  proof -
    have "(r = nat (a - 1) \<and> c = nat (b - 1)) \<longleftrightarrow> (a = int r + 1 \<and> b = int c + 1)"
      using a b by auto
    moreover have "m' ! r ! c = ?m1 ! r ! c + count_moves (b # cs) r c"
      using m'(3) that by blast
    moreover note nth_bump[OF "1.prems"(1) ra rb that]
    ultimately show ?thesis
      by (simp add: count_moves_Cons2)
  qed
  have total: "sum_matrix m' = sum_matrix m + (length (a # b # cs) - 1)"
    using m'(4) sum_matrix_bump[OF "1.prems"(1) ra rb] by simp
  show ?case
  proof (intro exI[of _ m'] conjI allI impI)
    show "record_moves (a # b # cs) m = Inr m'" by (rule run)
    show "is_square m' N" by (rule m'(2))
    show "sum_matrix m' = sum_matrix m + (length (a # b # cs) - 1)" by (rule total)
    show "m' ! r ! c = m ! r ! c + count_moves (a # b # cs) r c" if "r < N" "c < N" for r c
      by (rule cell[OF that])
  qed
qed simp_all

lemma set_client_codes: "set (client_codes ids codes ID) \<subseteq> set codes"
  by (auto simp: client_codes_def dest: set_zip_rightD)

lemma SM_client_in_range:
  assumes sq: "is_square m N" and rng: "\<forall>c \<in> set codes. 1 \<le> c \<and> c \<le> int N"
  shows "\<exists>m'. SM_client ids codes ID (m, s) =
            Inr (m', if 1 < length (client_codes ids codes ID) then s else s @ [ID])
     \<and> is_square m' N
     \<and> (\<forall>r < N. \<forall>c < N. m' ! r ! c = m ! r ! c + count_moves (client_codes ids codes ID) r c)
     \<and> sum_matrix m' = sum_matrix m + (length (client_codes ids codes ID) - 1)"
proof (cases "1 < length (client_codes ids codes ID)")
  case True
  have "\<forall>c \<in> set (client_codes ids codes ID). 1 \<le> c \<and> c \<le> int N"
    using rng set_client_codes[of ids codes ID] by blast
  from record_moves_in_range[OF sq this]
  obtain m' where m': "record_moves (client_codes ids codes ID) m = Inr m'" "is_square m' N"
    "\<forall>r < N. \<forall>c < N. m' ! r ! c = m ! r ! c + count_moves (client_codes ids codes ID) r c"
    "sum_matrix m' = sum_matrix m + (length (client_codes ids codes ID) - 1)"
    by blast
  have "SM_client ids codes ID (m, s) = Inr (m', s)"
    using True m'(1) by (simp add: SM_client_def Let_def)
  with True m'(2,3,4) show ?thesis
    by (intro exI[of _ m']) simp
next
  case False
  then have short: "client_codes ids codes ID = [] \<or> (\<exists>a. client_codes ids codes ID = [a])"
    by (cases "client_codes ids codes ID") auto
  have run: "SM_client ids codes ID (m, s) = Inr (m, s @ [ID])"
    using False by (simp add: SM_client_def Let_def)
  have zero: "count_moves (client_codes ids codes ID) r c = 0" for r c
    using short by auto
  have len: "length (client_codes ids codes ID) - 1 = 0"
    using False by simp
  show ?thesis
    using run sq False by (intro exI[of _ m]) (simp add: zero len)
qed

lemma SM_clients_in_range:
  assumes "is_square m N" "\<forall>c \<in> set codes. 1 \<le> c \<and> c \<le> int N"
  shows "\<exists>m'. SM_clients ids codes IDs (m, s) =
            Inr (m', s @ filter (\<lambda>ID. \<not> 1 < length (client_codes ids codes ID)) IDs)
     \<and> is_square m' N
     \<and> (\<forall>r < N. \<forall>c < N. m' ! r ! c =
            m ! r ! c + (\<Sum>ID\<leftarrow>IDs. count_moves (client_codes ids codes ID) r c))
     \<and> sum_matrix m' = sum_matrix m + (\<Sum>ID\<leftarrow>IDs. length (client_codes ids codes ID) - 1)"
  using assms(1)
proof (induction IDs arbitrary: m s)
  case Nil
  then show ?case by simp
next
  case (Cons ID IDs)
  let ?s1 = "if 1 < length (client_codes ids codes ID) then s else s @ [ID]"
  from SM_client_in_range[OF Cons.prems assms(2), of ids ID s]
  obtain m1 where m1: "SM_client ids codes ID (m, s) = Inr (m1, ?s1)" "is_square m1 N"
    "\<forall>r < N. \<forall>c < N. m1 ! r ! c = m ! r ! c + count_moves (client_codes ids codes ID) r c"
    "sum_matrix m1 = sum_matrix m + (length (client_codes ids codes ID) - 1)"
    by blast
  from Cons.IH[OF m1(2), of ?s1]
  obtain m' where m': "SM_clients ids codes IDs (m1, ?s1) =
        Inr (m', ?s1 @ filter (\<lambda>ID. \<not> 1 < length (client_codes ids codes ID)) IDs)"
    "is_square m' N"
    "\<forall>r < N. \<forall>c < N. m' ! r ! c =
        m1 ! r ! c + (\<Sum>ID\<leftarrow>IDs. count_moves (client_codes ids codes ID) r c)"
    "sum_matrix m' = sum_matrix m1 + (\<Sum>ID\<leftarrow>IDs. length (client_codes ids codes ID) - 1)"
    by blast
  show ?case
  proof (intro exI[of _ m'] conjI allI impI)
    show "SM_clients ids codes (ID # IDs) (m, s) =
        Inr (m', s @ filter (\<lambda>ID. \<not> 1 < length (client_codes ids codes ID)) (ID # IDs))"
      using m1(1) m'(1) by simp
    show "is_square m' N" by (rule m'(2))
    show "sum_matrix m' =
        sum_matrix m + (\<Sum>ID\<leftarrow>ID # IDs. length (client_codes ids codes ID) - 1)"
      using m1(4) m'(4) by simp
    show "m' ! r ! c =
        m ! r ! c + (\<Sum>ID\<leftarrow>ID # IDs. count_moves (client_codes ids codes ID) r c)"
      if "r < N" "c < N" for r c
    proof -
      have "m' ! r ! c = m1 ! r ! c + (\<Sum>ID\<leftarrow>IDs. count_moves (client_codes ids codes ID) r c)"
        using m'(3) that by blast
      moreover have "m1 ! r ! c = m ! r ! c + count_moves (client_codes ids codes ID) r c"
        using m1(3) that by blast
      ultimately show ?thesis by simp
    qed
  qed
qed

lemma py_max_Max: "codes \<noteq> [] \<Longrightarrow> py_max codes = Inr (Max (set codes))"
proof (cases codes)
  case Nil
  assume "codes \<noteq> []"
  with Nil show ?thesis by simp
next
  case (Cons y ys)
  have "Max (set (y # ys)) = fold max ys y"
    by (rule Max.set_eq_fold)
  then show ?thesis
    using Cons by (simp add: py_max_def)
qed

lemma is_square_zeros: "is_square (replicate N (replicate N 0)) N"
  by (simp add: is_square_def)

lemma sum_matrix_zeros: "sum_matrix (replicate N (replicate N 0)) = 0"
  by (simp add: sum_matrix_def sum_list_replicate)

lemma SM_final_in_range:
  assumes codes: "wardTeamCatCode df = Some codes" and ne: "codes \<noteq> []"
    and pos: "\<forall>c \<in> set codes. 1 \<le> c"
  shows "\<exists>m. SM_final df =
            Inr (m, 0 # filter (\<lambda>ID. \<not> 1 < length (client_codes (ClientID df) codes ID))
                        (unique (ClientID df)))
     \<and> is_square m (SM_size codes)
     \<and> (\<forall>r < SM_size codes. \<forall>c < SM_size codes. m ! r ! c =
            (\<Sum>ID\<leftarrow>unique (ClientID df). count_moves (client_codes (ClientID df) codes ID) r c))
     \<and> sum_matrix m =
          (\<Sum>ID\<leftarrow>unique (ClientID df). length (client_codes (ClientID df) codes ID) - 1)"
proof -
  let ?N = "SM_size codes"
  let ?z = "replicate ?N (replicate ?N (0::nat))"
  have mx: "py_max codes = Inr (Max (set codes))"
    by (rule py_max_Max[OF ne])
  have "Max (set codes) \<in> set codes"
    using ne by (intro Max_in) simp_all
  then have mpos: "1 \<le> Max (set codes)"
    using pos by blast
  then have zeros: "np_zeros2 (Max (set codes)) = Inr ?z"
    by (simp add: np_zeros2_def SM_size_def)
  have rng: "\<forall>c \<in> set codes. 1 \<le> c \<and> c \<le> int ?N"
    using pos mpos by (auto simp: SM_size_def)
  from SM_clients_in_range[OF is_square_zeros rng, of "ClientID df" "unique (ClientID df)" "[0]"]
  obtain m where m: "SM_clients (ClientID df) codes (unique (ClientID df)) (?z, [0]) =
        Inr (m, [0] @ filter (\<lambda>ID. \<not> 1 < length (client_codes (ClientID df) codes ID))
                        (unique (ClientID df)))"
    "is_square m ?N"
    "\<forall>r < ?N. \<forall>c < ?N. m ! r ! c =
        ?z ! r ! c + (\<Sum>ID\<leftarrow>unique (ClientID df). count_moves (client_codes (ClientID df) codes ID) r c)"
    "sum_matrix m = sum_matrix ?z +
        (\<Sum>ID\<leftarrow>unique (ClientID df). length (client_codes (ClientID df) codes ID) - 1)"
    by blast
  show ?thesis
  proof (intro exI[of _ m] conjI allI impI)
    show "SM_final df =
        Inr (m, 0 # filter (\<lambda>ID. \<not> 1 < length (client_codes (ClientID df) codes ID))
                    (unique (ClientID df)))"
      using codes mx zeros m(1) by (simp add: SM_final_def)
    show "is_square m ?N" by (rule m(2))
    show "sum_matrix m =
        (\<Sum>ID\<leftarrow>unique (ClientID df). length (client_codes (ClientID df) codes ID) - 1)"
      using m(4) by (simp add: sum_matrix_zeros)
    show "m ! r ! c =
        (\<Sum>ID\<leftarrow>unique (ClientID df). count_moves (client_codes (ClientID df) codes ID) r c)"
      if "r < ?N" "c < ?N" for r c
    proof -
      have "m ! r ! c = ?z ! r ! c +
          (\<Sum>ID\<leftarrow>unique (ClientID df). count_moves (client_codes (ClientID df) codes ID) r c)"
        using m(3) that by blast
      then show ?thesis using that by simp
    qed
  qed
qed

lemma cat_code_pos: "1 \<le> cat_code labels x"
  by (simp add: cat_code_def)

lemma output_SM_file_final: "SM_final df = Inr (m, s) \<Longrightarrow> output_SM_file df = Inr m"
  by (simp add: output_SM_file_def)

lemma Max_cat_codes:
  assumes "labels \<noteq> []"
  shows "Max (set (map (cat_code labels) labels)) = int (card (set labels))"
proof -
  have "set (map (cat_code labels) labels) = cat_code labels ` set labels"
    by simp
  also have "\<dots> = {1..int (card (set labels))}"
    using cat_code_bij[of labels] by (rule bij_betw_imp_surj_on)
  finally have eq: "set (map (cat_code labels) labels) = {1..int (card (set labels))}" .
  have "0 < card (set labels)"
    using assms by (simp add: card_gt_0_iff)
  then have "(1::int) \<le> int (card (set labels))"
    by simp
  then have "Max {1..int (card (set labels))} = int (card (set labels))"
    by (intro Max_eqI) simp_all
  then show ?thesis
    unfolding eq .
qed

lemma SM_size_cat_codes:
  assumes "labels \<noteq> []"
  shows "SM_size (map (cat_code labels) labels) = card (set labels)"
  unfolding SM_size_def Max_cat_codes[OF assms] by simp


text \<open>
  C10. When the data have at least one row, the service movement array is square, its
  side is the largest code, the largest code is the number of distinct labels, and every
  code of the data, less one, is a row index and a column index inside the array.
\<close>

theorem matrix_is_square_on_the_codes:
  assumes "newWardTeam DATA_SG = Some labels" and "labels \<noteq> []"
  shows "\<exists>df codes servMove.
      categorise_columns DATA_SG = Inr df \<and> wardTeamCatCode df = Some codes
    \<and> output_SM_file df = Inr servMove
    \<and> is_square servMove (nat (Max (set codes)))
    \<and> Max (set codes) = int (card (set labels))
    \<and> (\<forall>c \<in> set codes. np_index (length servMove) (c - 1) = Inr (nat (c - 1))
          \<and> nat (c - 1) < length servMove
          \<and> length (servMove ! nat (c - 1)) = length servMove)"
proof -
  let ?codes = "map (cat_code labels) labels"
  let ?df = "DATA_SG\<lparr>wardTeamCat := Some labels, wardTeamCatCode := Some ?codes\<rparr>"
  have cat: "categorise_columns DATA_SG = Inr ?df"
    by (rule categorise_columns_codes[OF assms(1)])
  have codes: "wardTeamCatCode ?df = Some ?codes"
    by simp
  have ne: "?codes \<noteq> []"
    using assms(2) by simp
  have pos: "\<forall>c \<in> set ?codes. 1 \<le> c"
    by (simp add: cat_code_pos)
  from SM_final_in_range[OF codes ne pos]
  obtain m s where m: "SM_final ?df = Inr (m, s)" "is_square m (SM_size ?codes)"
    by blast
  have mx: "Max (set ?codes) = int (card (set labels))"
    by (rule Max_cat_codes[OF assms(2)])
  have sz: "SM_size ?codes = card (set labels)"
    by (rule SM_size_cat_codes[OF assms(2)])
  have len: "length m = card (set labels)"
    using m(2) by (simp add: is_square_def sz)
  have idx: "np_index (length m) (c - 1) = Inr (nat (c - 1)) \<and> nat (c - 1) < length m
      \<and> length (m ! nat (c - 1)) = length m" if "c \<in> set ?codes" for c
  proof -
    have "c \<le> Max (set ?codes)"
      using that by (intro Max_ge) simp_all
    moreover have "1 \<le> c"
      using pos that by blast
    ultimately have "1 \<le> c" "c \<le> int (card (set labels))"
      unfolding mx by simp_all
    then have r: "0 \<le> c - 1" "c - 1 < int (length m)" "nat (c - 1) < card (set labels)"
      unfolding len by simp_all
    have "length (m ! nat (c - 1)) = SM_size ?codes"
      by (rule is_square_row[OF m(2)]) (simp add: sz r(3))
    then show ?thesis
      using r by (simp add: np_index_in_range len sz)
  qed
  show ?thesis
  proof (intro exI[of _ ?df] exI[of _ ?codes] exI[of _ m] conjI ballI)
    show "categorise_columns DATA_SG = Inr ?df" by (rule cat)
    show "wardTeamCatCode ?df = Some ?codes" by simp
    show "output_SM_file ?df = Inr m" by (rule output_SM_file_final[OF m(1)])
    show "is_square m (nat (Max (set ?codes)))"
      using m(2) by (simp add: SM_size_def)
    show "Max (set ?codes) = int (card (set labels))" by (rule mx)
  qed (use idx in blast)+
qed

lemma set_unique [simp]: "set (unique xs) = set xs"
  by (simp add: unique_def)

lemma distinct_unique [simp]: "distinct (unique xs)"
  by (simp add: unique_def)

lemma length_client_codes:
  "length ids = length codes \<Longrightarrow>
   length (client_codes ids codes ID) = length (filter (\<lambda>x. x = ID) ids)"
  unfolding client_codes_def by (induction ids codes rule: list_induct2) simp_all

lemma client_codes_nonempty:
  assumes "length ids = length codes" "ID \<in> set ids"
  shows "1 \<le> length (client_codes ids codes ID)"
proof -
  have "filter (\<lambda>x. x = ID) ids \<noteq> []"
    using assms(2) by (simp add: filter_empty_conv)
  then show ?thesis
    unfolding length_client_codes[OF assms(1)] by (simp add: Suc_le_eq)
qed

lemma count_list_distinct: "distinct xs \<Longrightarrow> x \<in> set xs \<Longrightarrow> count_list xs x = 1"
  by (induction xs) auto

lemma count_moves_single: "length cs = 1 \<Longrightarrow> count_moves cs r c = 0"
  by (cases cs) simp_all

text \<open>
  C8. For a client with exactly one row the body of the loop leaves \<^verbatim>\<open>servMove\<close> as it
  is (so the edge file, which is made from \<^verbatim>\<open>servMove\<close> alone, gets no row from this
  client) and puts the client's id at the end of \<^verbatim>\<open>singles\<close>, which grows by one entry.
  When the loop has ended, \<^verbatim>\<open>singles\<close> holds, after its first entry 0, the clients with
  one row, each once: its number of entries is the number of such clients.
\<close>

theorem single_admission_recorded_without_move:
  assumes codes: "wardTeamCatCode df = Some codes"
    and len: "length (ClientID df) = length codes"
    and pos: "\<forall>c \<in> set codes. 1 \<le> c"
    and ID: "ID \<in> set (ClientID df)"
    and one: "length (client_codes (ClientID df) codes ID) = 1"
  shows "(\<forall>servMove singles.
            SM_client (ClientID df) codes ID (servMove, singles) = Inr (servMove, singles @ [ID]))
    \<and> (\<forall>r c. count_moves (client_codes (ClientID df) codes ID) r c = 0)
    \<and> (\<exists>servMove singles. SM_final df = Inr (servMove, singles)
          \<and> singles = 0 # filter (\<lambda>I. length (client_codes (ClientID df) codes I) = 1)
                             (unique (ClientID df))
          \<and> count_list (tl singles) ID = 1
          \<and> length (tl singles) =
              card {I \<in> set (ClientID df). length (client_codes (ClientID df) codes I) = 1})"
proof -
  let ?ids = "ClientID df"
  let ?one = "\<lambda>I. length (client_codes ?ids codes I) = 1"
  let ?singles = "0 # filter ?one (unique ?ids)"
  have step: "SM_client ?ids codes ID (servMove, singles) = Inr (servMove, singles @ [ID])"
    for servMove singles
    using one by (simp add: SM_client_def Let_def)
  have none: "count_moves (client_codes ?ids codes ID) r c = 0" for r c
    by (rule count_moves_single[OF one])
  have ne: "codes \<noteq> []"
    using ID len by auto
  have same: "filter (\<lambda>I. \<not> 1 < length (client_codes ?ids codes I)) (unique ?ids) =
      filter ?one (unique ?ids)"
  proof (rule filter_cong[OF refl])
    fix I assume "I \<in> set (unique ?ids)"
    then have "1 \<le> length (client_codes ?ids codes I)"
      by (intro client_codes_nonempty[OF len]) simp
    then show "(\<not> 1 < length (client_codes ?ids codes I)) = ?one I"
      by arith
  qed
  from SM_final_in_range[OF codes ne pos]
  obtain m where m: "SM_final df = Inr (m, ?singles)"
    unfolding same by blast
  have cnt: "count_list (tl ?singles) ID = 1"
  proof -
    have "distinct (filter ?one (unique ?ids))" by simp
    moreover have "ID \<in> set (filter ?one (unique ?ids))"
      using ID one by simp
    ultimately have "count_list (filter ?one (unique ?ids)) ID = 1"
      by (rule count_list_distinct)
    then show ?thesis by simp
  qed
  have card: "length (tl ?singles) = card {I \<in> set ?ids. ?one I}"
  proof -
    have "length (filter ?one (unique ?ids)) = card ({I. ?one I} \<inter> set (unique ?ids))"
      by (rule distinct_length_filter) simp
    also have "{I. ?one I} \<inter> set (unique ?ids) = {I \<in> set ?ids. ?one I}"
      by auto
    finally show ?thesis by simp
  qed
  show ?thesis
    using step none m cnt card by blast
qed




lemma example_client_codes:
  "client_codes (ClientID example_coded) [1, 2, 2, 3, 2] 1 = [1, 2, 2, 3]"
  "client_codes (ClientID example_coded) [1, 2, 2, 3, 2] 2 = [2]"
  by (simp_all add: example_coded_def example_DATA_SG_def client_codes_def)

lemma example_SM: "SM_final example_coded = Inr ([[0, 1, 0], [0, 1, 1], [0, 0, 0]], [0, 2])"
  by code_simp


theorem matrix_is_square_on_the_codes_witness:
  "newWardTeam example_DATA_SG = Some [''Ward1'', ''Ward2'', ''Ward2'', ''Ward3'', ''Ward2''] \<and>
   [''Ward1'', ''Ward2'', ''Ward2'', ''Ward3'', ''Ward2''] \<noteq> [] \<and>
   (\<exists>df codes servMove. categorise_columns example_DATA_SG = Inr df
      \<and> wardTeamCatCode df = Some codes
      \<and> output_SM_file df = Inr servMove
      \<and> is_square servMove (nat (Max (set codes)))
      \<and> Max (set codes) = int (card (set [''Ward1'', ''Ward2'', ''Ward2'', ''Ward3'', ''Ward2''])))"
proof -
  have l: "newWardTeam example_DATA_SG = Some [''Ward1'', ''Ward2'', ''Ward2'', ''Ward3'', ''Ward2'']"
    by (simp add: example_DATA_SG_def)
  have n: "[''Ward1'', ''Ward2'', ''Ward2'', ''Ward3'', ''Ward2''] \<noteq> []"
    by simp
  from matrix_is_square_on_the_codes[OF l n] l n show ?thesis
    by blast
qed

theorem single_admission_recorded_without_move_witness:
  "wardTeamCatCode example_coded = Some [1, 2, 2, 3, 2] \<and>
   length (ClientID example_coded) = length [1, 2, 2, 3, 2 :: int] \<and>
   2 \<in> set (ClientID example_coded) \<and>
   length (client_codes (ClientID example_coded) [1, 2, 2, 3, 2] 2) = 1 \<and>
   SM_client (ClientID example_coded) [1, 2, 2, 3, 2] 2 ([[0, 1, 0], [0, 1, 1], [0, 0, 0]], [0]) =
     Inr ([[0, 1, 0], [0, 1, 1], [0, 0, 0]], [0, 2])"
proof -
  have c: "wardTeamCatCode example_coded = Some [1, 2, 2, 3, 2]"
    by (simp add: example_coded_def)
  have l: "length (ClientID example_coded) = length [1, 2, 2, 3, 2 :: int]"
    by (simp add: example_coded_def example_DATA_SG_def)
  have p: "\<forall>c \<in> set [1, 2, 2, 3, 2 :: int]. 1 \<le> c"
    by simp
  have i: "2 \<in> set (ClientID example_coded)"
    by (simp add: example_coded_def example_DATA_SG_def)
  have o: "length (client_codes (ClientID example_coded) [1, 2, 2, 3, 2] 2) = 1"
    by (simp add: example_client_codes)
  from single_admission_recorded_without_move[OF c l p i o]
  have "SM_client (ClientID example_coded) [1, 2, 2, 3, 2] 2 ([[0, 1, 0], [0, 1, 1], [0, 0, 0]], [0]) =
     Inr ([[0, 1, 0], [0, 1, 1], [0, 0, 0]], [0] @ [2])"
    by blast
  with c l i o show ?thesis
    by simp
qed

subsection \<open>Failing runs: no rows, and a label with two settings\<close>

lemma categories_Nil [simp]: "categories [] = []"
  by (simp add: categories_def)

text \<open>
  C5, as the code has it. A network made from data with no rows is not completed: without
  the representation of the removed groups \<^verbatim>\<open>output_SM_file\<close> fails on the \<^verbatim>\<open>max\<close> of
  the empty column of codes, and with it \<^verbatim>\<open>categorise_columns\<close> fails on the column
  \<^verbatim>\<open>newWardTeam\<close>, which the loop over no values never assigned; neither an array nor an
  edge or node table is made, and the store is left as it was. Called on data with no
  rows, \<^verbatim>\<open>create_network_data_for_subgroup\<close> makes no network at all and ends without
  an error.
\<close>

theorem no_rows_no_network:
  assumes "wf_frame h DATA_SG" and "ClientID DATA_SG = []" and "newWardTeam DATA_SG = None"
  shows "create_network subgroup_info DATA_SG grp h =
           (Inl (if REPRESENT_REMOVED subgroup_info = 0 then ValueError_max_empty
                 else KeyError ''newWardTeam''), h)
     \<and> (COLUMN (DATA subgroup_info) = [] \<longrightarrow>
          fst (create_network_data_for_subgroup subgroup_info h) = Inr [])"
proof -
  have col: "COLUMN DATA_SG = []" and wt: "h ! WardTeam DATA_SG = []"
    using assms(1,2) by (simp_all add: wf_frame_def)
  have one: "create_network subgroup_info DATA_SG grp h =
           (Inl (if REPRESENT_REMOVED subgroup_info = 0 then ValueError_max_empty
                 else KeyError ''newWardTeam''), h)"
  proof (cases "REPRESENT_REMOVED subgroup_info = 0")
    case True
    then show ?thesis
      by (simp add: create_network_def update_dictionary_def create_new_ward_and_setting_columns_def
          categorise_columns_def cat_codes_def wt create_output_files_def output_SM_file_def
          SM_final_def py_max_def)
  next
    case False
    then show ?thesis
      by (simp add: create_network_def update_dictionary_def create_new_ward_and_setting_columns_def
          categorise_columns_def col unique_def assms(3))
  qed
  have none: "fst (create_network_data_for_subgroup subgroup_info h) = Inr []"
    if "COLUMN (DATA subgroup_info) = []"
    using that
    by (simp add: create_network_data_for_subgroup_def remove_None_def getitem_mask_def alloc_def
        take_rows_def unique_def Let_def)
  show ?thesis
    using one none by blast
qed

text \<open>
  The run on no rows ends in the \<^verbatim>\<open>ValueError\<close> of \<^verbatim>\<open>max\<close>, not in three empty tables.
\<close>

theorem no_rows_counterexample:
  "create_network (whole_network empty_DATA_SG) empty_DATA_SG [] [[], []] =
     (Inl ValueError_max_empty, [[], []])"
  by (simp add: create_network_def update_dictionary_def create_new_ward_and_setting_columns_def
      categorise_columns_def cat_codes_def create_output_files_def output_SM_file_def
      SM_final_def py_max_def whole_network_def empty_DATA_SG_def)

theorem no_rows_no_network_witness:
  "wf_frame [[], []] empty_DATA_SG \<and> ClientID empty_DATA_SG = [] \<and>
   newWardTeam empty_DATA_SG = None \<and>
   create_network (whole_network empty_DATA_SG) empty_DATA_SG [] [[], []] =
     (Inl ValueError_max_empty, [[], []]) \<and>
   fst (create_network_data_for_subgroup (whole_network empty_DATA_SG) [[], []]) = Inr []"
proof -
  have w: "wf_frame [[], []] empty_DATA_SG"
    by (simp add: wf_frame_def empty_DATA_SG_def)
  have c: "ClientID empty_DATA_SG = []" and n: "newWardTeam empty_DATA_SG = None"
    by (simp_all add: empty_DATA_SG_def)
  have r: "REPRESENT_REMOVED (whole_network empty_DATA_SG) = 0"
    and d: "COLUMN (DATA (whole_network empty_DATA_SG)) = []"
    by (simp_all add: whole_network_def empty_DATA_SG_def)
  from no_rows_no_network[OF w c n, of "whole_network empty_DATA_SG" "[]"] w c n r d
  show ?thesis
    by simp
qed

lemma length_unique: "length (unique xs) = card (set xs)"
  by (simp add: unique_def length_remdups_card_conv)

lemma length_group_keys: "length (group_keys codes) = card (set codes)"
  by (simp add: group_keys_def length_remdups_card_conv)

lemma card_image_less_not_inj:
  assumes "finite A" "x \<in> A" "y \<in> A" "x \<noteq> y" "f x = f y"
  shows "card (f ` A) < card A"
proof -
  have "\<not> inj_on f A"
    using assms(2-5) by (auto simp: inj_on_def)
  then have "card (f ` A) \<noteq> card A"
    using eq_card_imp_inj_on[OF assms(1)] by blast
  moreover have "card (f ` A) \<le> card A"
    by (rule card_image_le[OF assms(1)])
  ultimately show ?thesis by arith
qed

lemma node_rows_exceed_codes:
  fixes cats settings :: "string list" and codes :: "int list"
  assumes len: "length cats = length codes" "length codes = length settings"
    and i: "i < length codes" and j: "j < length codes"
    and same: "codes ! i = codes ! j" and diff: "settings ! i \<noteq> settings ! j"
  shows "card (set codes) < card (set (zip cats (zip codes settings)))"
proof -
  let ?rows = "zip cats (zip codes settings)"
  let ?f = "\<lambda>r :: string \<times> int \<times> string. fst (snd r)"
  have n: "length ?rows = length codes"
    using len by simp
  have ri: "?rows ! i = (cats ! i, codes ! i, settings ! i)"
    and rj: "?rows ! j = (cats ! j, codes ! j, settings ! j)"
    using len i j by simp_all
  have mi: "?rows ! i \<in> set ?rows" and mj: "?rows ! j \<in> set ?rows"
    using i j n by (simp_all only: nth_mem)
  have ne: "?rows ! i \<noteq> ?rows ! j"
    using diff unfolding ri rj by simp
  have eq: "?f (?rows ! i) = ?f (?rows ! j)"
    using same unfolding ri rj by simp
  have "map ?f ?rows = codes"
    using len by (intro nth_equalityI) simp_all
  then have "?f ` set ?rows = set codes"
    by (metis set_map)
  moreover have "card (?f ` set ?rows) < card (set ?rows)"
    by (rule card_image_less_not_inj[OF _ mi mj ne eq]) simp
  ultimately show ?thesis by simp
qed

text \<open>
  C7, as the code has it. When a label stands with two different settings in the data,
  \<^verbatim>\<open>output_Node_file\<close> fails and no node table is made: the table of distinct label,
  code and setting has more rows than there are codes, and stacking its columns with the
  means and medians raises the \<^verbatim>\<open>ValueError\<close> of \<^verbatim>\<open>np.vstack\<close>. Nothing checks the
  settings of a label, and the error does not name the label.
\<close>

theorem two_settings_stop_the_node_file:
  assumes new: "newWardTeam DATA_SG = Some labels" "newSetting DATA_SG = Some settings"
    and len: "length labels = length settings"
    and i: "i < length labels" and j: "j < length labels"
    and same: "labels ! i = labels ! j" and diff: "settings ! i \<noteq> settings ! j"
  shows "\<exists>df. categorise_columns DATA_SG = Inr df
     \<and> output_Node_file df = Inl ValueError_array_dimensions
     \<and> (\<forall>servMove edges nodes. create_output_files df \<noteq> Inr (servMove, edges, nodes))"
proof -
  let ?codes = "map (cat_code labels) labels"
  let ?df = "DATA_SG\<lparr>wardTeamCat := Some labels, wardTeamCatCode := Some ?codes\<rparr>"
  let ?rows = "zip labels (zip ?codes settings)"
  have cat: "categorise_columns DATA_SG = Inr ?df"
    by (rule categorise_columns_codes[OF new(1)])
  have "card (set ?codes) < card (set ?rows)"
    by (rule node_rows_exceed_codes[where i = i and j = j]) (use len i j same diff in simp_all)
  then have "length (sort_key (\<lambda>r. fst (snd r)) (unique ?rows)) \<noteq> length (group_keys ?codes)"
    by (simp add: length_unique length_group_keys)
  then have node: "output_Node_file ?df = Inl ValueError_array_dimensions"
    using new(2) by (simp add: output_Node_file_def Let_def)
  have "create_output_files ?df \<noteq> Inr (servMove, edges, nodes)" for servMove edges nodes
    using node by (simp add: create_output_files_def split: sum.splits)
  with cat node show ?thesis
    by blast
qed

lemma example_Node_file:
  "output_Node_file example_coded = Inr
     [\<lparr>NodeID = 1, Label = ''Ward1'', MeanLoS = 3, MedianLoS = 3, NodeSetting = ''Inpatient''\<rparr>,
      \<lparr>NodeID = 2, Label = ''Ward2'', MeanLoS = 5, MedianLoS = 4, NodeSetting = ''Community''\<rparr>,
      \<lparr>NodeID = 3, Label = ''Ward3'', MeanLoS = 7, MedianLoS = 7, NodeSetting = ''OOA''\<rparr>]"
  by code_simp

text \<open>
  Two data sets whose ambiguous labels differ fail with the same error value, the one of
  \<^verbatim>\<open>np.vstack\<close>: it is no assertion about a label and carries none.
\<close>

theorem two_settings_counterexample:
  "node_file_of (two_settings_DATA_SG ''Harford'') = Inl ValueError_array_dimensions \<and>
   node_file_of (two_settings_DATA_SG ''Ward1'') = Inl ValueError_array_dimensions"
  by code_simp

theorem two_settings_stop_the_node_file_witness:
  "newWardTeam (two_settings_DATA_SG ''Harford'') = Some [''Harford'', ''Harford''] \<and>
   newSetting (two_settings_DATA_SG ''Harford'') = Some [''Inpatient'', ''OOA''] \<and>
   [''Harford'', ''Harford''] ! 0 = [''Harford'', ''Harford''] ! 1 \<and>
   [''Inpatient'', ''OOA''] ! 0 \<noteq> [''Inpatient'', ''OOA''] ! 1 \<and>
   (\<exists>df. categorise_columns (two_settings_DATA_SG ''Harford'') = Inr df
      \<and> output_Node_file df = Inl ValueError_array_dimensions)"
proof -
  have a: "newWardTeam (two_settings_DATA_SG ''Harford'') = Some [''Harford'', ''Harford'']"
    and b: "newSetting (two_settings_DATA_SG ''Harford'') = Some [''Inpatient'', ''OOA'']"
    by (simp_all add: two_settings_DATA_SG_def)
  have l: "length [''Harford'', ''Harford''] = length [''Inpatient'', ''OOA'']"
    and i: "0 < length [''Harford'', ''Harford'']" and j: "1 < length [''Harford'', ''Harford'']"
    by simp_all
  have s: "[''Harford'', ''Harford''] ! 0 = [''Harford'', ''Harford''] ! 1"
    and d: "[''Inpatient'', ''OOA''] ! 0 \<noteq> [''Inpatient'', ''OOA''] ! 1"
    by simp_all
  from two_settings_stop_the_node_file[OF a b l i j s d] a b s d show ?thesis
    by blast
qed

subsection \<open>The new ward team and setting columns\<close>

lemma length_recoded_upto [simp]:
  "length (recoded_upto f grp D col a) = min (length a) (length col)"
  by (simp add: recoded_upto_def)

lemma recoded_upto_empty: "length a = length col \<Longrightarrow> recoded_upto f grp {} col a = a"
  unfolding recoded_upto_def by (induction a col rule: list_induct2) simp_all

lemma recoded_upto_all:
  assumes "set col \<subseteq> D"
  shows "recoded_upto f grp D col a = recoded f grp col a"
  unfolding recoded_upto_def recoded_def
proof (rule map_cong[OF refl])
  fix p assume p: "p \<in> set (zip a col)"
  obtain x g where xg: "p = (x, g)"
    by (cases p)
  have "g \<in> set col"
    using p unfolding xg by (rule set_zip_rightD)
  then have "g \<in> D"
    using assms by blast
  then show "(case p of (x, g) \<Rightarrow> if g \<in> D \<and> g \<noteq> grp then f g else x) =
      (case p of (x, g) \<Rightarrow> if g = grp then x else f g)"
    unfolding xg by simp
qed

lemma assign_where_recoded_upto:
  assumes "length a = length col" "v \<noteq> grp"
  shows "assign_where col v (f v) (recoded_upto f grp D col a) = recoded_upto f grp (insert v D) col a"
  using assms(1) unfolding assign_where_def recoded_upto_def
  by (induction a col rule: list_induct2) (use assms(2) in auto)

lemma recoded_upto_insert_focus:
  "recoded_upto f grp (insert grp D) col a = recoded_upto f grp D col a"
  unfolding recoded_upto_def by (rule map_cong[OF refl]) auto

lemma recode_step_upto:
  assumes w: "WardTeam df < length h" and s: "Setting df < length h"
    and ne: "WardTeam df \<noteq> Setting df"
    and hw: "h ! WardTeam df =
        recoded_upto (\<lambda>g. SUBGROUP_NODE_NAME si @ g) grp D (COLUMN df) a"
    and hs: "h ! Setting df = recoded_upto (\<lambda>g. ''Mixture'') grp D (COLUMN df) b"
    and la: "length a = length (COLUMN df)" and lb: "length b = length (COLUMN df)"
  shows "recode_step si grp v (df, h) =
      (df\<lparr>newWardTeam :=
             Some (recoded_upto (\<lambda>g. SUBGROUP_NODE_NAME si @ g) grp (insert v D) (COLUMN df) a),
           newSetting := Some (recoded_upto (\<lambda>g. ''Mixture'') grp (insert v D) (COLUMN df) b)\<rparr>,
       h[WardTeam df :=
           recoded_upto (\<lambda>g. SUBGROUP_NODE_NAME si @ g) grp (insert v D) (COLUMN df) a,
         Setting df := recoded_upto (\<lambda>g. ''Mixture'') grp (insert v D) (COLUMN df) b])"
proof (cases "grp = v")
  case True
  have "h[WardTeam df := h ! WardTeam df, Setting df := h ! Setting df] = h"
    by simp
  then show ?thesis
    using True hw hs by (simp add: recode_step_def recoded_upto_insert_focus)
next
  case False
  then have v: "v \<noteq> grp" by simp
  have 1: "assign_where (COLUMN df) v (SUBGROUP_NODE_NAME si @ v) (h ! WardTeam df) =
      recoded_upto (\<lambda>g. SUBGROUP_NODE_NAME si @ g) grp (insert v D) (COLUMN df) a"
    unfolding hw by (rule assign_where_recoded_upto[OF la v])
  have 2: "assign_where (COLUMN df) v ''Mixture'' (h ! Setting df) =
      recoded_upto (\<lambda>g. ''Mixture'') grp (insert v D) (COLUMN df) b"
    unfolding hs by (rule assign_where_recoded_upto[OF lb v])
  show ?thesis
    using False w s ne by (simp add: recode_step_def Let_def 1 2)
qed

lemma fold_recode_step:
  assumes w: "WardTeam df < length h" and s: "Setting df < length h"
    and ne: "WardTeam df \<noteq> Setting df"
    and hw: "h ! WardTeam df =
        recoded_upto (\<lambda>g. SUBGROUP_NODE_NAME si @ g) grp D (COLUMN df) a"
    and hs: "h ! Setting df = recoded_upto (\<lambda>g. ''Mixture'') grp D (COLUMN df) b"
    and la: "length a = length (COLUMN df)" and lb: "length b = length (COLUMN df)"
  shows "fold (recode_step si grp) vs (df, h) =
      (if vs = [] then df else
       df\<lparr>newWardTeam :=
             Some (recoded_upto (\<lambda>g. SUBGROUP_NODE_NAME si @ g) grp (D \<union> set vs) (COLUMN df) a),
           newSetting := Some (recoded_upto (\<lambda>g. ''Mixture'') grp (D \<union> set vs) (COLUMN df) b)\<rparr>,
       h[WardTeam df :=
           recoded_upto (\<lambda>g. SUBGROUP_NODE_NAME si @ g) grp (D \<union> set vs) (COLUMN df) a,
         Setting df := recoded_upto (\<lambda>g. ''Mixture'') grp (D \<union> set vs) (COLUMN df) b])"
  using w s ne hw hs la lb
proof (induction vs arbitrary: df h D)
  case Nil
  have "h[WardTeam df := h ! WardTeam df, Setting df := h ! Setting df] = h"
    by simp
  with Nil show ?case by simp
next
  case (Cons v vs)
  let ?W = "recoded_upto (\<lambda>g. SUBGROUP_NODE_NAME si @ g) grp (insert v D) (COLUMN df) a"
  let ?S = "recoded_upto (\<lambda>g. ''Mixture'') grp (insert v D) (COLUMN df) b"
  let ?df1 = "df\<lparr>newWardTeam := Some ?W, newSetting := Some ?S\<rparr>"
  let ?h1 = "h[WardTeam df := ?W, Setting df := ?S]"
  have step: "recode_step si grp v (df, h) = (?df1, ?h1)"
    by (rule recode_step_upto[OF Cons.prems])
  have w1: "WardTeam ?df1 < length ?h1" and s1: "Setting ?df1 < length ?h1"
    and ne1: "WardTeam ?df1 \<noteq> Setting ?df1"
    using Cons.prems(1,2,3) by simp_all
  have hw1: "?h1 ! WardTeam ?df1 =
      recoded_upto (\<lambda>g. SUBGROUP_NODE_NAME si @ g) grp (insert v D) (COLUMN ?df1) a"
    using Cons.prems(1,2,3) by simp
  have hs1: "?h1 ! Setting ?df1 = recoded_upto (\<lambda>g. ''Mixture'') grp (insert v D) (COLUMN ?df1) b"
    using Cons.prems(1,2,3) by simp
  have la1: "length a = length (COLUMN ?df1)" and lb1: "length b = length (COLUMN ?df1)"
    using Cons.prems(6,7) by simp_all
  let ?W' = "recoded_upto (\<lambda>g. SUBGROUP_NODE_NAME si @ g) grp (D \<union> set (v # vs)) (COLUMN df) a"
  let ?S' = "recoded_upto (\<lambda>g. ''Mixture'') grp (D \<union> set (v # vs)) (COLUMN df) b"
  have D: "insert v D \<union> set vs = D \<union> set (v # vs)"
    by simp
  have over: "?h1[WardTeam df := ?W', Setting df := ?S'] = h[WardTeam df := ?W', Setting df := ?S']"
    using Cons.prems(3) by (simp add: list_update_swap[of "WardTeam df" "Setting df"])
  have upd: "?df1\<lparr>newWardTeam := Some ?W', newSetting := Some ?S'\<rparr> =
      df\<lparr>newWardTeam := Some ?W', newSetting := Some ?S'\<rparr>"
    by simp
  have "fold (recode_step si grp) vs (?df1, ?h1) =
      (if vs = [] then ?df1 else ?df1\<lparr>newWardTeam := Some ?W', newSetting := Some ?S'\<rparr>,
       ?h1[WardTeam df := ?W', Setting df := ?S'])"
    using Cons.IH[OF w1 s1 ne1 hw1 hs1 la1 lb1] unfolding D by simp
  then have ih: "fold (recode_step si grp) vs (?df1, ?h1) =
      (if vs = [] then ?df1 else df\<lparr>newWardTeam := Some ?W', newSetting := Some ?S'\<rparr>,
       h[WardTeam df := ?W', Setting df := ?S'])"
    unfolding over upd .
  have one: "vs = [] \<Longrightarrow> ?df1 = df\<lparr>newWardTeam := Some ?W', newSetting := Some ?S'\<rparr>"
    by simp
  have "fold (recode_step si grp) (v # vs) (df, h) = fold (recode_step si grp) vs (?df1, ?h1)"
    by (simp add: step)
  also have "\<dots> = (df\<lparr>newWardTeam := Some ?W', newSetting := Some ?S'\<rparr>,
       h[WardTeam df := ?W', Setting df := ?S'])"
    unfolding ih using one by (cases "vs = []") simp_all
  finally show ?case
    by simp
qed

lemma unique_Nil_iff: "unique xs = [] \<longleftrightarrow> xs = []"
proof -
  have "set (unique xs) = set xs"
    by (simp add: unique_def)
  then show ?thesis
    by (metis set_empty)
qed

lemma create_new_columns_represent:
  assumes wf: "wf_frame h df" and rep: "REPRESENT_REMOVED si \<noteq> 0"
  shows "create_new_ward_and_setting_columns si df grp h =
      (if COLUMN df = [] then df else
       df\<lparr>newWardTeam :=
             Some (recoded (\<lambda>g. SUBGROUP_NODE_NAME si @ g) grp (COLUMN df) (h ! WardTeam df)),
           newSetting := Some (recoded (\<lambda>g. ''Mixture'') grp (COLUMN df) (h ! Setting df))\<rparr>,
       h[WardTeam df := recoded (\<lambda>g. SUBGROUP_NODE_NAME si @ g) grp (COLUMN df) (h ! WardTeam df),
         Setting df := recoded (\<lambda>g. ''Mixture'') grp (COLUMN df) (h ! Setting df)])"
proof -
  have w: "WardTeam df < length h" and s: "Setting df < length h"
    and ne: "WardTeam df \<noteq> Setting df"
    and la: "length (h ! WardTeam df) = length (COLUMN df)"
    and lb: "length (h ! Setting df) = length (COLUMN df)"
    using wf by (simp_all add: wf_frame_def)
  have hw: "h ! WardTeam df =
      recoded_upto (\<lambda>g. SUBGROUP_NODE_NAME si @ g) grp {} (COLUMN df) (h ! WardTeam df)"
    by (simp add: recoded_upto_empty[OF la])
  have hs: "h ! Setting df = recoded_upto (\<lambda>g. ''Mixture'') grp {} (COLUMN df) (h ! Setting df)"
    by (simp add: recoded_upto_empty[OF lb])
  have all: "recoded_upto f grp ({} \<union> set (unique (COLUMN df))) (COLUMN df) a =
      recoded f grp (COLUMN df) a" for f a
    by (rule recoded_upto_all) (simp add: unique_def)
  show ?thesis
    using rep fold_recode_step[OF w s ne hw hs la lb, of "unique (COLUMN df)"]
    unfolding all by (simp add: create_new_ward_and_setting_columns_def unique_Nil_iff)
qed

lemma recode_step_frame:
  assumes "recode_step si grp v (df, h) = (df', h')"
  shows "length h' = length h \<and> WardTeam df' = WardTeam df \<and> Setting df' = Setting df
     \<and> (\<forall>a. a \<noteq> WardTeam df \<longrightarrow> a \<noteq> Setting df \<longrightarrow> h' ! a = h ! a)"
  using assms by (auto simp: recode_step_def Let_def split: if_splits)

lemma fold_recode_step_frame:
  assumes "fold (recode_step si grp) vs (df, h) = (df', h')"
  shows "length h' = length h \<and> WardTeam df' = WardTeam df \<and> Setting df' = Setting df
     \<and> (\<forall>a. a \<noteq> WardTeam df \<longrightarrow> a \<noteq> Setting df \<longrightarrow> h' ! a = h ! a)"
  using assms
proof (induction vs arbitrary: df h)
  case Nil
  then show ?case by simp
next
  case (Cons v vs)
  obtain df1 h1 where step: "recode_step si grp v (df, h) = (df1, h1)"
    by (cases "recode_step si grp v (df, h)")
  then have rest: "fold (recode_step si grp) vs (df1, h1) = (df', h')"
    using Cons.prems by simp
  from recode_step_frame[OF step] Cons.IH[OF rest] show ?case
    by simp
qed

lemma create_new_columns_frame:
  assumes "create_new_ward_and_setting_columns si df grp h = (df', h')"
  shows "length h' = length h \<and> WardTeam df' = WardTeam df \<and> Setting df' = Setting df
     \<and> (\<forall>a. a \<noteq> WardTeam df \<longrightarrow> a \<noteq> Setting df \<longrightarrow> h' ! a = h ! a)"
proof (cases "REPRESENT_REMOVED si = 0")
  case True
  then show ?thesis
    using assms by (auto simp: create_new_ward_and_setting_columns_def)
next
  case False
  then have "fold (recode_step si grp) (unique (COLUMN df)) (df, h) = (df', h')"
    using assms by (simp add: create_new_ward_and_setting_columns_def)
  then show ?thesis
    by (rule fold_recode_step_frame)
qed

lemma take_rows_column: "take_rows (map P col) col = filter P col"
  unfolding take_rows_def by (induction col) simp_all

lemma take_rows_zip:
  "length xs = length col \<Longrightarrow>
   zip (take_rows (map P col) xs) (filter P col) = filter (\<lambda>(x, g). P g) (zip xs col)"
  unfolding take_rows_def by (induction xs col rule: list_induct2) simp_all

lemma length_take_rows:
  "length xs = length col \<Longrightarrow> length (take_rows (map P col) xs) = length (filter P col)"
  unfolding take_rows_def by (induction xs col rule: list_induct2) simp_all

lemma length_recoded: "length a = length col \<Longrightarrow> length (recoded f grp col a) = length col"
  by (simp add: recoded_def)

lemma nth_recoded:
  "length a = length col \<Longrightarrow> i < length col \<Longrightarrow>
   recoded f grp col a ! i = (if col ! i = grp then a ! i else f (col ! i))"
  by (simp add: recoded_def)

lemma set_recoded:
  "length a = length col \<Longrightarrow>
   set (recoded f grp col a) =
     {x. (x, grp) \<in> set (zip a col)} \<union> {f g | g. g \<in> set col \<and> g \<noteq> grp}"
  unfolding recoded_def by (induction a col rule: list_induct2) auto

lemma getitem_mask_eq:
  "getitem_mask keep df h =
     (\<lparr>ClientID = take_rows keep (ClientID df),
       COLUMN = take_rows keep (COLUMN df),
       LoSdays = take_rows keep (LoSdays df),
       WardTeam = length h,
       Setting = Suc (length h),
       newWardTeam = map_option (take_rows keep) (newWardTeam df),
       newSetting = map_option (take_rows keep) (newSetting df),
       wardTeamCat = map_option (take_rows keep) (wardTeamCat df),
       wardTeamCatCode = map_option (take_rows keep) (wardTeamCatCode df)\<rparr>,
      h @ [take_rows keep (h ! WardTeam df), take_rows keep (h ! Setting df)])"
  by (simp add: getitem_mask_def alloc_def)

lemma copy_deep_eq:
  "copy_deep df h =
     (df\<lparr>WardTeam := length h, Setting := Suc (length h)\<rparr>, h @ [h ! WardTeam df, h ! Setting df])"
  by (simp add: copy_deep_def alloc_def)

lemma wf_frame_getitem_mask:
  assumes "wf_frame h df" and "getitem_mask (map P (COLUMN df)) df h = (df', h')"
  shows "wf_frame h' df'"
proof -
  have l: "length (h ! WardTeam df) = length (COLUMN df)"
    "length (h ! Setting df) = length (COLUMN df)"
    "length (ClientID df) = length (COLUMN df)" "length (LoSdays df) = length (COLUMN df)"
    using assms(1) by (simp_all add: wf_frame_def)
  show ?thesis
    using assms(2) unfolding getitem_mask_eq
    by (auto simp: wf_frame_def nth_append length_take_rows l)
qed

lemma wf_frame_copy_deep:
  assumes "wf_frame h df" and "copy_deep df h = (df', h')"
  shows "wf_frame h' df'"
  using assms unfolding copy_deep_eq by (auto simp: wf_frame_def nth_append)

text \<open>
  C6. In a network of the group \<open>grp\<close> that represents the removed groups, the rows
  without a value in the column are dropped first and the others are all kept, in their
  order. A row of the group keeps its ward team and its setting; a row of another value
  \<open>v\<close> gets the ward team \<^verbatim>\<open>SUBGROUP_NODE_NAME\<close> followed by \<open>v\<close> and the setting
  \<^verbatim>\<open>Mixture\<close>. Different values give different new names, and the labels of the network
  are the ward teams of the rows of the group together with one new name for each other
  value of the column that is not \<^verbatim>\<open>None\<close>.
\<close>

theorem excluded_groups_are_collapsed:
  assumes wf: "wf_frame h (DATA si)" and rep: "REPRESENT_REMOVED si \<noteq> 0"
    and g: "grp \<in> set (COLUMN (DATA si))" and gn: "grp \<noteq> ''None''"
  shows "\<exists>si' h1 DATA_SG h2 df h3 labels settings.
      remove_None si h = (si', h1) \<and> subgroup_DATA_SG si' grp h1 = (DATA_SG, h2)
    \<and> create_new_ward_and_setting_columns si' DATA_SG grp h2 = (df, h3)
    \<and> COLUMN DATA_SG = filter (\<lambda>v. v \<noteq> ''None'') (COLUMN (DATA si))
    \<and> zip (h2 ! WardTeam DATA_SG) (COLUMN DATA_SG) =
        filter (\<lambda>(w, v). v \<noteq> ''None'') (zip (h ! WardTeam (DATA si)) (COLUMN (DATA si)))
    \<and> zip (h2 ! Setting DATA_SG) (COLUMN DATA_SG) =
        filter (\<lambda>(s, v). v \<noteq> ''None'') (zip (h ! Setting (DATA si)) (COLUMN (DATA si)))
    \<and> ClientID df = ClientID DATA_SG \<and> LoSdays df = LoSdays DATA_SG
    \<and> COLUMN df = COLUMN DATA_SG
    \<and> newWardTeam df = Some labels \<and> newSetting df = Some settings
    \<and> length labels = length (COLUMN DATA_SG) \<and> length settings = length (COLUMN DATA_SG)
    \<and> (\<forall>i < length (COLUMN DATA_SG).
          (COLUMN DATA_SG ! i = grp \<longrightarrow>
             labels ! i = h2 ! WardTeam DATA_SG ! i \<and> settings ! i = h2 ! Setting DATA_SG ! i)
        \<and> (COLUMN DATA_SG ! i \<noteq> grp \<longrightarrow>
             labels ! i = SUBGROUP_NODE_NAME si @ COLUMN DATA_SG ! i \<and> settings ! i = ''Mixture''))
    \<and> inj (\<lambda>v. SUBGROUP_NODE_NAME si @ v)
    \<and> set labels =
        {w. (w, grp) \<in> set (zip (h ! WardTeam (DATA si)) (COLUMN (DATA si)))}
        \<union> {SUBGROUP_NODE_NAME si @ v | v.
             v \<in> set (COLUMN (DATA si)) \<and> v \<noteq> grp \<and> v \<noteq> ''None''}"
proof -
  let ?P = "\<lambda>v :: string. v \<noteq> ''None''"
  let ?col = "COLUMN (DATA si)"
  let ?keep = "map ?P ?col"
  let ?wt = "h ! WardTeam (DATA si)"
  let ?st = "h ! Setting (DATA si)"
  let ?name = "SUBGROUP_NODE_NAME si"
  obtain D1 h1 where gm: "getitem_mask ?keep (DATA si) h = (D1, h1)"
    by (cases "getitem_mask ?keep (DATA si) h")
  define si' where "si' = si\<lparr>DATA := D1\<rparr>"
  obtain DATA_SG h2 where cd: "copy_deep D1 h1 = (DATA_SG, h2)"
    by (cases "copy_deep D1 h1")
  have lw: "length ?wt = length ?col" and ls: "length ?st = length ?col"
    using wf by (simp_all add: wf_frame_def)
  have rn: "remove_None si h = (si', h1)"
    using gm by (simp add: remove_None_def si'_def)
  have sd: "subgroup_DATA_SG si' grp h1 = (DATA_SG, h2)"
    using rep cd by (simp add: subgroup_DATA_SG_def si'_def)
  have wf1: "wf_frame h1 D1"
    by (rule wf_frame_getitem_mask[OF wf gm])
  have wf2: "wf_frame h2 DATA_SG"
    by (rule wf_frame_copy_deep[OF wf1 cd])
  have col: "COLUMN DATA_SG = filter ?P ?col"
    using gm cd unfolding getitem_mask_eq copy_deep_eq by (auto simp: take_rows_column)
  have ids: "ClientID DATA_SG = ClientID D1" "LoSdays DATA_SG = LoSdays D1"
    using cd unfolding copy_deep_eq by auto
  have arr: "h2 ! WardTeam DATA_SG = take_rows ?keep ?wt"
    "h2 ! Setting DATA_SG = take_rows ?keep ?st"
    using gm cd unfolding getitem_mask_eq copy_deep_eq by (auto simp: nth_append)
  have zw: "zip (h2 ! WardTeam DATA_SG) (COLUMN DATA_SG) = filter (\<lambda>(w, v). ?P v) (zip ?wt ?col)"
    unfolding arr col by (rule take_rows_zip[OF lw])
  have zs: "zip (h2 ! Setting DATA_SG) (COLUMN DATA_SG) = filter (\<lambda>(s, v). ?P v) (zip ?st ?col)"
    unfolding arr col by (rule take_rows_zip[OF ls])
  have la: "length (h2 ! WardTeam DATA_SG) = length (COLUMN DATA_SG)"
    and lb: "length (h2 ! Setting DATA_SG) = length (COLUMN DATA_SG)"
    using wf2 by (simp_all add: wf_frame_def)
  have ne: "COLUMN DATA_SG \<noteq> []"
    unfolding col using g gn by (auto simp: filter_empty_conv)
  let ?labels = "recoded (\<lambda>v. ?name @ v) grp (COLUMN DATA_SG) (h2 ! WardTeam DATA_SG)"
  let ?settings = "recoded (\<lambda>v. ''Mixture'') grp (COLUMN DATA_SG) (h2 ! Setting DATA_SG)"
  let ?df = "DATA_SG\<lparr>newWardTeam := Some ?labels, newSetting := Some ?settings\<rparr>"
  let ?h3 = "h2[WardTeam DATA_SG := ?labels, Setting DATA_SG := ?settings]"
  have rep': "REPRESENT_REMOVED si' \<noteq> 0" and name': "SUBGROUP_NODE_NAME si' = ?name"
    using rep by (simp_all add: si'_def)
  have run: "create_new_ward_and_setting_columns si' DATA_SG grp h2 = (?df, ?h3)"
    using create_new_columns_represent[OF wf2 rep', of grp] ne by (simp add: name')
  have rows: "\<forall>i < length (COLUMN DATA_SG).
          (COLUMN DATA_SG ! i = grp \<longrightarrow>
             ?labels ! i = h2 ! WardTeam DATA_SG ! i \<and> ?settings ! i = h2 ! Setting DATA_SG ! i)
        \<and> (COLUMN DATA_SG ! i \<noteq> grp \<longrightarrow>
             ?labels ! i = ?name @ COLUMN DATA_SG ! i \<and> ?settings ! i = ''Mixture'')"
    by (simp add: nth_recoded[OF la] nth_recoded[OF lb])
  have "set ?labels = {x. (x, grp) \<in> set (zip (h2 ! WardTeam DATA_SG) (COLUMN DATA_SG))}
      \<union> {?name @ v | v. v \<in> set (COLUMN DATA_SG) \<and> v \<noteq> grp}"
    by (rule set_recoded[OF la])
  also have "{x. (x, grp) \<in> set (zip (h2 ! WardTeam DATA_SG) (COLUMN DATA_SG))} =
      {w. (w, grp) \<in> set (zip ?wt ?col)}"
    unfolding zw using gn by auto
  also have "{?name @ v | v. v \<in> set (COLUMN DATA_SG) \<and> v \<noteq> grp} =
      {?name @ v | v. v \<in> set ?col \<and> v \<noteq> grp \<and> v \<noteq> ''None''}"
    unfolding col by auto
  finally have labs: "set ?labels = {w. (w, grp) \<in> set (zip ?wt ?col)}
      \<union> {?name @ v | v. v \<in> set ?col \<and> v \<noteq> grp \<and> v \<noteq> ''None''}" .
  have inj: "inj (\<lambda>v. ?name @ v)"
    by (simp add: inj_on_def)
  show ?thesis
  proof (rule exI[of _ si'], rule exI[of _ h1], rule exI[of _ DATA_SG], rule exI[of _ h2],
      rule exI[of _ ?df], rule exI[of _ ?h3], rule exI[of _ ?labels], rule exI[of _ ?settings],
      intro conjI)
    show "remove_None si h = (si', h1)" by (rule rn)
    show "subgroup_DATA_SG si' grp h1 = (DATA_SG, h2)" by (rule sd)
    show "create_new_ward_and_setting_columns si' DATA_SG grp h2 = (?df, ?h3)" by (rule run)
    show "COLUMN DATA_SG = filter ?P ?col" by (rule col)
    show "zip (h2 ! WardTeam DATA_SG) (COLUMN DATA_SG) = filter (\<lambda>(w, v). ?P v) (zip ?wt ?col)"
      by (rule zw)
    show "zip (h2 ! Setting DATA_SG) (COLUMN DATA_SG) = filter (\<lambda>(s, v). ?P v) (zip ?st ?col)"
      by (rule zs)
    show "ClientID ?df = ClientID DATA_SG" "LoSdays ?df = LoSdays DATA_SG"
      "COLUMN ?df = COLUMN DATA_SG" "newWardTeam ?df = Some ?labels"
      "newSetting ?df = Some ?settings"
      by simp_all
    show "length ?labels = length (COLUMN DATA_SG)" by (rule length_recoded[OF la])
    show "length ?settings = length (COLUMN DATA_SG)" by (rule length_recoded[OF lb])
    show "inj (\<lambda>v. ?name @ v)" by (rule inj)
    show "set ?labels = {w. (w, grp) \<in> set (zip ?wt ?col)}
      \<union> {?name @ v | v. v \<in> set ?col \<and> v \<noteq> grp \<and> v \<noteq> ''None''}" by (rule labs)
    show "\<forall>i < length (COLUMN DATA_SG).
          (COLUMN DATA_SG ! i = grp \<longrightarrow>
             ?labels ! i = h2 ! WardTeam DATA_SG ! i \<and> ?settings ! i = h2 ! Setting DATA_SG ! i)
        \<and> (COLUMN DATA_SG ! i \<noteq> grp \<longrightarrow>
             ?labels ! i = ?name @ COLUMN DATA_SG ! i \<and> ?settings ! i = ''Mixture'')"
      by (rule rows)
  qed
qed

lemma extends_refl: "extends h h"
  by (simp add: extends_def)

lemma extends_trans:
  assumes "extends h1 h2" "extends h2 h3"
  shows "extends h1 h3"
proof -
  have l: "length h1 \<le> length h2" "length h2 \<le> length h3"
    using assms by (simp_all add: extends_def)
  have "take (length h1) h3 = take (length h1) (take (length h2) h3)"
    using l by (simp add: min_def)
  also have "\<dots> = take (length h1) h2"
    using assms(2) by (simp add: extends_def)
  also have "\<dots> = h1"
    using assms(1) by (simp add: extends_def)
  finally show ?thesis
    using l by (simp add: extends_def)
qed

lemma extends_append: "extends h (h @ xs)"
  by (simp add: extends_def)

lemma extends_same_below:
  assumes "length h' = length h" "\<forall>a < n. h' ! a = h ! a" "n \<le> length h"
  shows "take n h' = take n h"
  using assms by (intro nth_equalityI) simp_all

lemma update_dictionary_frame:
  assumes "update_dictionary si df grp h = (r, h')"
  shows "length h' = length h
     \<and> (\<forall>a. a \<noteq> WardTeam df \<longrightarrow> a \<noteq> Setting df \<longrightarrow> h' ! a = h ! a)"
proof -
  obtain df1 h1 where c: "create_new_ward_and_setting_columns si df grp h = (df1, h1)"
    by (cases "create_new_ward_and_setting_columns si df grp h")
  then have "h' = h1"
    using assms by (simp add: update_dictionary_def)
  with create_new_columns_frame[OF c] show ?thesis
    by simp
qed

lemma create_network_frame:
  assumes "create_network si df grp h = (r, h')"
  shows "length h' = length h
     \<and> (\<forall>a. a \<noteq> WardTeam df \<longrightarrow> a \<noteq> Setting df \<longrightarrow> h' ! a = h ! a)"
proof -
  obtain r1 h1 where u: "update_dictionary si df grp h = (r1, h1)"
    by (cases "update_dictionary si df grp h")
  then have "h' = h1"
    using assms by (cases r1) (simp_all add: create_network_def)
  with update_dictionary_frame[OF u] show ?thesis
    by simp
qed

lemma subgroup_DATA_SG_fresh:
  assumes "subgroup_DATA_SG si grp h = (df, h')"
  shows "length h \<le> WardTeam df \<and> length h \<le> Setting df \<and> extends h h'"
proof (cases "REPRESENT_REMOVED si = 0")
  case True
  then show ?thesis
    using assms unfolding subgroup_DATA_SG_def getitem_mask_eq copy_deep_eq
    by (auto simp: extends_def)
next
  case False
  then show ?thesis
    using assms unfolding subgroup_DATA_SG_def copy_deep_eq
    by (auto simp: extends_def)
qed

lemma one_network_extends:
  assumes d: "subgroup_DATA_SG si grp h = (df, h1)"
    and n: "create_network si df grp h1 = (r, h2)"
  shows "extends h h2"
proof -
  from subgroup_DATA_SG_fresh[OF d]
  have f: "length h \<le> WardTeam df" "length h \<le> Setting df" and e: "extends h h1"
    by simp_all
  from create_network_frame[OF n]
  have l: "length h2 = length h1"
    and s: "\<forall>a. a \<noteq> WardTeam df \<longrightarrow> a \<noteq> Setting df \<longrightarrow> h2 ! a = h1 ! a"
    by simp_all
  have le: "length h \<le> length h1"
    using e by (simp add: extends_def)
  have "\<forall>a < length h. h2 ! a = h1 ! a"
    using s f by auto
  then have "take (length h) h2 = take (length h) h1"
    by (rule extends_same_below[OF l _ le])
  then show ?thesis
    using e l by (simp add: extends_def)
qed

lemma subgroup_networks_extends:
  "extends h (snd (subgroup_networks si groups files h))"
proof (induction groups arbitrary: files h)
  case Nil
  then show ?case by (simp add: extends_refl)
next
  case (Cons grp groups)
  show ?case
  proof (cases "grp = ''None''")
    case True
    then show ?thesis using Cons.IH by simp
  next
    case False
    obtain df h1 where d: "subgroup_DATA_SG si grp h = (df, h1)"
      by (cases "subgroup_DATA_SG si grp h")
    obtain r h2 where n: "create_network si df grp h1 = (r, h2)"
      by (cases "create_network si df grp h1")
    have e: "extends h h2"
      by (rule one_network_extends[OF d n])
    show ?thesis
    proof (cases r)
      case (Inl x)
      then show ?thesis
        using False d n e by simp
    next
      case (Inr out)
      have "extends h2 (snd (subgroup_networks si groups (files @ [out]) h2))"
        by (rule Cons.IH)
      then have "extends h (snd (subgroup_networks si groups (files @ [out]) h2))"
        by (rule extends_trans[OF e])
      then show ?thesis
        using False d n Inr by simp
    qed
  qed
qed

lemma create_network_data_for_subgroup_extends:
  "extends h (snd (create_network_data_for_subgroup si h))"
proof -
  obtain si' h1 where r: "remove_None si h = (si', h1)"
    by (cases "remove_None si h")
  have "extends h h1"
    using r unfolding remove_None_def getitem_mask_eq by (auto simp: extends_def)
  moreover have "extends h1 (snd (subgroup_networks si' (unique (COLUMN (DATA si'))) [] h1))"
    by (rule subgroup_networks_extends)
  ultimately have "extends h (snd (subgroup_networks si' (unique (COLUMN (DATA si'))) [] h1))"
    by (rule extends_trans)
  then show ?thesis
    using r by (simp add: create_network_data_for_subgroup_def)
qed

lemma recoded_cong_focus:
  assumes "length a = length col" "length a0 = length col"
    and "\<forall>i < length col. col ! i = grp \<longrightarrow> a0 ! i = a ! i"
  shows "recoded f grp col a0 = recoded f grp col a"
proof (rule nth_equalityI)
  show "length (recoded f grp col a0) = length (recoded f grp col a)"
    using assms(1,2) by (simp add: length_recoded)
next
  fix i assume "i < length (recoded f grp col a0)"
  then have i: "i < length col"
    using assms(2) by (simp add: length_recoded)
  show "recoded f grp col a0 ! i = recoded f grp col a ! i"
    using assms(3) i by (simp add: nth_recoded[OF assms(1) i] nth_recoded[OF assms(2) i])
qed

lemma extends_nth: "extends h h' \<Longrightarrow> a < length h \<Longrightarrow> h' ! a = h ! a"
  unfolding extends_def by (metis nth_take)

lemma recoding_in_place:
  assumes wf: "wf_frame h DATA_SG" and rep: "REPRESENT_REMOVED si \<noteq> 0"
    and ne: "COLUMN DATA_SG \<noteq> []"
  shows "\<exists>df h'.
      create_new_ward_and_setting_columns si DATA_SG grp h = (df, h')
    \<and> WardTeam df = WardTeam DATA_SG \<and> Setting df = Setting DATA_SG \<and> length h' = length h
    \<and> h' ! WardTeam DATA_SG =
        recoded (\<lambda>v. SUBGROUP_NODE_NAME si @ v) grp (COLUMN DATA_SG) (h ! WardTeam DATA_SG)
    \<and> h' ! Setting DATA_SG =
        recoded (\<lambda>v. ''Mixture'') grp (COLUMN DATA_SG) (h ! Setting DATA_SG)
    \<and> newWardTeam df = Some (h' ! WardTeam df) \<and> newSetting df = Some (h' ! Setting df)
    \<and> (\<forall>i < length (COLUMN DATA_SG). COLUMN DATA_SG ! i \<noteq> grp \<longrightarrow>
          h' ! WardTeam df ! i = SUBGROUP_NODE_NAME si @ COLUMN DATA_SG ! i
        \<and> h' ! Setting df ! i = ''Mixture'')
    \<and> (\<forall>a < length h. a \<noteq> WardTeam DATA_SG \<longrightarrow> a \<noteq> Setting DATA_SG \<longrightarrow> h' ! a = h ! a)
    \<and> (\<forall>h0. wf_frame h0 DATA_SG
          \<and> (\<forall>i < length (COLUMN DATA_SG). COLUMN DATA_SG ! i = grp \<longrightarrow>
                h0 ! WardTeam DATA_SG ! i = h ! WardTeam DATA_SG ! i
              \<and> h0 ! Setting DATA_SG ! i = h ! Setting DATA_SG ! i) \<longrightarrow>
          (\<exists>h0'. create_new_ward_and_setting_columns si DATA_SG grp h0 = (df, h0')
              \<and> h0' ! WardTeam DATA_SG = h' ! WardTeam DATA_SG
              \<and> h0' ! Setting DATA_SG = h' ! Setting DATA_SG))
    \<and> extends h (snd (create_network_data_for_subgroup (si\<lparr>DATA := DATA_SG\<rparr>) h))
    \<and> snd (create_network_data_for_subgroup (si\<lparr>DATA := DATA_SG\<rparr>) h) ! WardTeam DATA_SG =
        h ! WardTeam DATA_SG
    \<and> snd (create_network_data_for_subgroup (si\<lparr>DATA := DATA_SG\<rparr>) h) ! Setting DATA_SG =
        h ! Setting DATA_SG"
proof -
  let ?col = "COLUMN DATA_SG"
  let ?w = "WardTeam DATA_SG"
  let ?s = "Setting DATA_SG"
  let ?f = "\<lambda>v. SUBGROUP_NODE_NAME si @ v"
  let ?m = "\<lambda>v :: string. ''Mixture''"
  let ?W = "recoded ?f grp ?col (h ! ?w)"
  let ?S = "recoded ?m grp ?col (h ! ?s)"
  let ?df = "DATA_SG\<lparr>newWardTeam := Some ?W, newSetting := Some ?S\<rparr>"
  let ?h' = "h[?w := ?W, ?s := ?S]"
  have w: "?w < length h" and s: "?s < length h" and d: "?w \<noteq> ?s"
    and la: "length (h ! ?w) = length ?col" and lb: "length (h ! ?s) = length ?col"
    using wf by (simp_all add: wf_frame_def)
  have run: "create_new_ward_and_setting_columns si DATA_SG grp h = (?df, ?h')"
    using create_new_columns_represent[OF wf rep, of grp] ne by simp
  have W: "?h' ! ?w = ?W" and S: "?h' ! ?s = ?S"
    using w s d by simp_all
  have excl: "\<forall>i < length ?col. ?col ! i \<noteq> grp \<longrightarrow>
      ?h' ! WardTeam ?df ! i = ?f (?col ! i) \<and> ?h' ! Setting ?df ! i = ''Mixture''"
    using w s d by (simp add: nth_recoded[OF la] nth_recoded[OF lb])
  have other: "\<forall>a < length h. a \<noteq> ?w \<longrightarrow> a \<noteq> ?s \<longrightarrow> ?h' ! a = h ! a"
    by simp
  have lost: "\<exists>h0'. create_new_ward_and_setting_columns si DATA_SG grp h0 = (?df, h0')
      \<and> h0' ! ?w = ?h' ! ?w \<and> h0' ! ?s = ?h' ! ?s"
    if wf0: "wf_frame h0 DATA_SG"
      and agree: "\<forall>i < length ?col. ?col ! i = grp \<longrightarrow>
        h0 ! ?w ! i = h ! ?w ! i \<and> h0 ! ?s ! i = h ! ?s ! i"
    for h0
  proof -
    have w0: "?w < length h0" and s0: "?s < length h0"
      and la0: "length (h0 ! ?w) = length ?col" and lb0: "length (h0 ! ?s) = length ?col"
      using wf0 by (simp_all add: wf_frame_def)
    have eW: "recoded ?f grp ?col (h0 ! ?w) = ?W"
      by (rule recoded_cong_focus[OF la la0]) (use agree in blast)
    have eS: "recoded ?m grp ?col (h0 ! ?s) = ?S"
      by (rule recoded_cong_focus[OF lb lb0]) (use agree in blast)
    have "create_new_ward_and_setting_columns si DATA_SG grp h0 = (?df, h0[?w := ?W, ?s := ?S])"
      using create_new_columns_represent[OF wf0 rep, of grp] ne by (simp add: eW eS)
    moreover have "h0[?w := ?W, ?s := ?S] ! ?w = ?h' ! ?w" "h0[?w := ?W, ?s := ?S] ! ?s = ?h' ! ?s"
      using w s w0 s0 d by simp_all
    ultimately show ?thesis
      by blast
  qed
  let ?end = "snd (create_network_data_for_subgroup (si\<lparr>DATA := DATA_SG\<rparr>) h)"
  have ext: "extends h ?end"
    by (rule create_network_data_for_subgroup_extends)
  have keepw: "?end ! ?w = h ! ?w" and keeps: "?end ! ?s = h ! ?s"
    by (rule extends_nth[OF ext w], rule extends_nth[OF ext s])
  show ?thesis
  proof (rule exI[of _ ?df], rule exI[of _ ?h'], intro conjI)
    show "create_new_ward_and_setting_columns si DATA_SG grp h = (?df, ?h')" by (rule run)
    show "WardTeam ?df = ?w" "Setting ?df = ?s" "length ?h' = length h" by simp_all
    show "?h' ! ?w = ?W" by (rule W)
    show "?h' ! ?s = ?S" by (rule S)
    show "newWardTeam ?df = Some (?h' ! WardTeam ?df)" using W by simp
    show "newSetting ?df = Some (?h' ! Setting ?df)" using S by simp
    show "\<forall>i < length ?col. ?col ! i \<noteq> grp \<longrightarrow>
      ?h' ! WardTeam ?df ! i = ?f (?col ! i) \<and> ?h' ! Setting ?df ! i = ''Mixture''"
      by (rule excl)
    show "\<forall>a < length h. a \<noteq> ?w \<longrightarrow> a \<noteq> ?s \<longrightarrow> ?h' ! a = h ! a" by (rule other)
    show "\<forall>h0. wf_frame h0 DATA_SG
          \<and> (\<forall>i < length ?col. ?col ! i = grp \<longrightarrow>
                h0 ! ?w ! i = h ! ?w ! i \<and> h0 ! ?s ! i = h ! ?s ! i) \<longrightarrow>
          (\<exists>h0'. create_new_ward_and_setting_columns si DATA_SG grp h0 = (?df, h0')
              \<and> h0' ! ?w = ?h' ! ?w \<and> h0' ! ?s = ?h' ! ?s)"
      using lost by blast
    show "extends h ?end" by (rule ext)
    show "?end ! ?w = h ! ?w" by (rule keepw)
    show "?end ! ?s = h ! ?s" by (rule keeps)
  qed
qed

lemma snd_create_network:
  "snd (create_network si df grp h) = snd (create_new_ward_and_setting_columns si df grp h)"
proof -
  obtain df1 h1 where c: "create_new_ward_and_setting_columns si df grp h = (df1, h1)"
    by (cases "create_new_ward_and_setting_columns si df grp h")
  show ?thesis
    unfolding create_network_def update_dictionary_def c
    by (cases "categorise_columns df1") simp_all
qed

lemma network_on_a_deep_copy:
  assumes wf: "wf_frame h (DATA si)" and rep: "REPRESENT_REMOVED si \<noteq> 0"
    and ne: "COLUMN (DATA si) \<noteq> []"
  shows "\<exists>df h1 r h2.
      subgroup_DATA_SG si grp h = (df, h1) \<and> create_network si df grp h1 = (r, h2)
    \<and> length h \<le> WardTeam df \<and> length h \<le> Setting df
    \<and> h1 ! WardTeam df = h ! WardTeam (DATA si) \<and> h1 ! Setting df = h ! Setting (DATA si)
    \<and> extends h h2
    \<and> h2 ! WardTeam (DATA si) = h ! WardTeam (DATA si)
    \<and> h2 ! Setting (DATA si) = h ! Setting (DATA si)
    \<and> h2 ! WardTeam df =
        recoded (\<lambda>v. SUBGROUP_NODE_NAME si @ v) grp (COLUMN (DATA si)) (h ! WardTeam (DATA si))
    \<and> h2 ! Setting df =
        recoded (\<lambda>v. ''Mixture'') grp (COLUMN (DATA si)) (h ! Setting (DATA si))"
proof -
  let ?D = "DATA si"
  let ?df = "?D\<lparr>WardTeam := length h, Setting := Suc (length h)\<rparr>"
  let ?h1 = "h @ [h ! WardTeam ?D, h ! Setting ?D]"
  let ?W = "recoded (\<lambda>v. SUBGROUP_NODE_NAME si @ v) grp (COLUMN ?D) (h ! WardTeam ?D)"
  let ?S = "recoded (\<lambda>v. ''Mixture'') grp (COLUMN ?D) (h ! Setting ?D)"
  have w: "WardTeam ?D < length h" and s: "Setting ?D < length h"
    using wf by (simp_all add: wf_frame_def)
  have cd: "copy_deep ?D h = (?df, ?h1)"
    by (rule copy_deep_eq)
  have sd: "subgroup_DATA_SG si grp h = (?df, ?h1)"
    using rep cd by (simp add: subgroup_DATA_SG_def)
  have wf1: "wf_frame ?h1 ?df"
    by (rule wf_frame_copy_deep[OF wf cd])
  have a1: "?h1 ! WardTeam ?df = h ! WardTeam ?D" and a2: "?h1 ! Setting ?df = h ! Setting ?D"
    by (simp_all add: nth_append)
  obtain r h2 where n: "create_network si ?df grp ?h1 = (r, h2)"
    by (cases "create_network si ?df grp ?h1")
  have "h2 = snd (create_new_ward_and_setting_columns si ?df grp ?h1)"
    using snd_create_network[of si ?df grp ?h1] n by simp
  also have "\<dots> = ?h1[WardTeam ?df := ?W, Setting ?df := ?S]"
    using create_new_columns_represent[OF wf1 rep, of grp] ne by (simp add: nth_append)
  finally have h2: "h2 = ?h1[WardTeam ?df := ?W, Setting ?df := ?S]" .
  have ext: "extends h h2"
    by (rule one_network_extends[OF sd n])
  have kw: "h2 ! WardTeam ?D = h ! WardTeam ?D" and ks: "h2 ! Setting ?D = h ! Setting ?D"
    by (rule extends_nth[OF ext w], rule extends_nth[OF ext s])
  have rw: "h2 ! WardTeam ?df = ?W" and rs: "h2 ! Setting ?df = ?S"
    unfolding h2 by simp_all
  show ?thesis
    by (rule exI[of _ ?df], rule exI[of _ ?h1], rule exI[of _ r], rule exI[of _ h2])
       (intro conjI sd n a1 a2 ext kw ks rw rs, simp_all)
qed

lemma network_without_a_copy:
  assumes wf: "wf_frame h (DATA si)" and rep: "REPRESENT_REMOVED si \<noteq> 0"
    and ne: "COLUMN (DATA si) \<noteq> []"
  shows "snd (create_network si (DATA si) grp h) ! WardTeam (DATA si) =
        recoded (\<lambda>v. SUBGROUP_NODE_NAME si @ v) grp (COLUMN (DATA si)) (h ! WardTeam (DATA si))
    \<and> snd (create_network si (DATA si) grp h) ! Setting (DATA si) =
        recoded (\<lambda>v. ''Mixture'') grp (COLUMN (DATA si)) (h ! Setting (DATA si))
    \<and> ((\<exists>i < length (COLUMN (DATA si)). COLUMN (DATA si) ! i \<noteq> grp
            \<and> h ! WardTeam (DATA si) ! i \<noteq> SUBGROUP_NODE_NAME si @ COLUMN (DATA si) ! i) \<longrightarrow>
         snd (create_network si (DATA si) grp h) ! WardTeam (DATA si) \<noteq> h ! WardTeam (DATA si))
    \<and> ((\<exists>i < length (COLUMN (DATA si)). COLUMN (DATA si) ! i \<noteq> grp
            \<and> h ! Setting (DATA si) ! i \<noteq> ''Mixture'') \<longrightarrow>
         snd (create_network si (DATA si) grp h) ! Setting (DATA si) \<noteq> h ! Setting (DATA si))"
proof -
  let ?D = "DATA si"
  let ?col = "COLUMN ?D"
  let ?W = "recoded (\<lambda>v. SUBGROUP_NODE_NAME si @ v) grp ?col (h ! WardTeam ?D)"
  let ?S = "recoded (\<lambda>v. ''Mixture'') grp ?col (h ! Setting ?D)"
  let ?end = "snd (create_network si ?D grp h)"
  have w: "WardTeam ?D < length h" and s: "Setting ?D < length h"
    and d: "WardTeam ?D \<noteq> Setting ?D"
    and la: "length (h ! WardTeam ?D) = length ?col" and lb: "length (h ! Setting ?D) = length ?col"
    using wf by (simp_all add: wf_frame_def)
  have "?end = h[WardTeam ?D := ?W, Setting ?D := ?S]"
    unfolding snd_create_network using create_new_columns_represent[OF wf rep, of grp] ne by simp
  then have W: "?end ! WardTeam ?D = ?W" and S: "?end ! Setting ?D = ?S"
    using w s d by simp_all
  have dw: "?end ! WardTeam ?D \<noteq> h ! WardTeam ?D"
    if "\<exists>i < length ?col. ?col ! i \<noteq> grp \<and> h ! WardTeam ?D ! i \<noteq> SUBGROUP_NODE_NAME si @ ?col ! i"
  proof -
    from that obtain i where i: "i < length ?col" "?col ! i \<noteq> grp"
      "h ! WardTeam ?D ! i \<noteq> SUBGROUP_NODE_NAME si @ ?col ! i"
      by blast
    have "?W ! i = SUBGROUP_NODE_NAME si @ ?col ! i"
      using i(2) by (simp add: nth_recoded[OF la i(1)])
    then have "?W ! i \<noteq> h ! WardTeam ?D ! i"
      using i(3) by simp
    then show ?thesis
      unfolding W by auto
  qed
  have ds: "?end ! Setting ?D \<noteq> h ! Setting ?D"
    if "\<exists>i < length ?col. ?col ! i \<noteq> grp \<and> h ! Setting ?D ! i \<noteq> ''Mixture''"
  proof -
    from that obtain i where i: "i < length ?col" "?col ! i \<noteq> grp"
      "h ! Setting ?D ! i \<noteq> ''Mixture''"
      by blast
    have "?S ! i = ''Mixture''"
      using i(2) by (simp add: nth_recoded[OF lb i(1)])
    then have "?S ! i \<noteq> h ! Setting ?D ! i"
      using i(3) by simp
    then show ?thesis
      unfolding S by auto
  qed
  show ?thesis
    using W S dw ds by (intro conjI impI)
qed

lemma networks_leave_the_data:
  assumes wf: "wf_frame h (DATA si)"
  shows "\<exists>si1 h1. remove_None si h = (si1, h1) \<and> wf_frame h1 (DATA si1)
    \<and> length h \<le> WardTeam (DATA si1) \<and> length h \<le> Setting (DATA si1)
    \<and> (\<forall>groups files. extends h1 (snd (subgroup_networks si1 groups files h1))
          \<and> snd (subgroup_networks si1 groups files h1) ! WardTeam (DATA si1) =
              h1 ! WardTeam (DATA si1)
          \<and> snd (subgroup_networks si1 groups files h1) ! Setting (DATA si1) =
              h1 ! Setting (DATA si1))
    \<and> snd (create_network_data_for_subgroup si h) ! WardTeam (DATA si1) =
        h1 ! WardTeam (DATA si1)
    \<and> snd (create_network_data_for_subgroup si h) ! Setting (DATA si1) =
        h1 ! Setting (DATA si1)"
proof -
  let ?keep = "map (\<lambda>g. g \<noteq> ''None'') (COLUMN (DATA si))"
  obtain D1 h1 where gm: "getitem_mask ?keep (DATA si) h = (D1, h1)"
    by (cases "getitem_mask ?keep (DATA si) h")
  let ?si1 = "si\<lparr>DATA := D1\<rparr>"
  have rn: "remove_None si h = (?si1, h1)"
    using gm by (simp add: remove_None_def)
  have wf1: "wf_frame h1 (DATA ?si1)"
    using wf_frame_getitem_mask[OF wf gm] by simp
  have w: "WardTeam (DATA ?si1) < length h1" and s: "Setting (DATA ?si1) < length h1"
    using wf1 by (simp_all add: wf_frame_def)
  have fresh: "length h \<le> WardTeam (DATA ?si1)" "length h \<le> Setting (DATA ?si1)"
    using gm unfolding getitem_mask_eq by auto
  have loop: "extends h1 (snd (subgroup_networks ?si1 groups files h1))
      \<and> snd (subgroup_networks ?si1 groups files h1) ! WardTeam (DATA ?si1) =
          h1 ! WardTeam (DATA ?si1)
      \<and> snd (subgroup_networks ?si1 groups files h1) ! Setting (DATA ?si1) =
          h1 ! Setting (DATA ?si1)" for groups files
  proof -
    have e: "extends h1 (snd (subgroup_networks ?si1 groups files h1))"
      by (rule subgroup_networks_extends)
    show ?thesis
      using e extends_nth[OF e w] extends_nth[OF e s] by (intro conjI)
  qed
  have fin: "snd (create_network_data_for_subgroup si h) =
      snd (subgroup_networks ?si1 (unique (COLUMN (DATA ?si1))) [] h1)"
    using rn by (simp add: create_network_data_for_subgroup_def)
  show ?thesis
  proof (rule exI[of _ ?si1], rule exI[of _ h1], intro conjI allI)
    show "remove_None si h = (?si1, h1)" by (rule rn)
    show "wf_frame h1 (DATA ?si1)" by (rule wf1)
    show "length h \<le> WardTeam (DATA ?si1)" "length h \<le> Setting (DATA ?si1)" by (rule fresh)+
    show "snd (create_network_data_for_subgroup si h) ! WardTeam (DATA ?si1) =
        h1 ! WardTeam (DATA ?si1)"
      unfolding fin using loop by blast
    show "snd (create_network_data_for_subgroup si h) ! Setting (DATA ?si1) =
        h1 ! Setting (DATA ?si1)"
      unfolding fin using loop by blast
  qed (use loop in blast)+
qed

text \<open>
  C9. When the removed groups are represented, the new names and settings are written
  into the arrays of the columns \<^verbatim>\<open>WardTeam\<close> and \<^verbatim>\<open>Setting\<close> of the frame itself: the
  frame keeps its two arrays, their contents are the recoded ones, and the new columns are
  equal to them. No other array of the store changes. What the rows of the other groups
  held before is gone: a store that differs in those rows only ends with the same frame
  and the same two arrays. After \<^verbatim>\<open>create_network_data_for_subgroup\<close> every array that was in
  the store before, the caller's two columns among them, is as it was.

  It is the deep copy of each network that keeps the data. The data of one network are in
  two new arrays, copies of the caller's; the network recodes the copies and leaves the
  caller's arrays as they were. The same network made on the caller's frame, with no copy,
  leaves the recoded arrays in the caller's columns, and these differ from what the columns
  held as soon as one row of another group held something else than its new value. The
  frame without the rows \<^verbatim>\<open>None\<close>, which every network of the loop is copied from, has its
  two arrays unchanged after any number of networks.
\<close>

theorem recoding_writes_into_the_frame:
  assumes wf: "wf_frame h DATA_SG" and rep: "REPRESENT_REMOVED si \<noteq> 0"
    and ne: "COLUMN DATA_SG \<noteq> []"
  shows "(\<exists>df h'.
      create_new_ward_and_setting_columns si DATA_SG grp h = (df, h')
    \<and> WardTeam df = WardTeam DATA_SG \<and> Setting df = Setting DATA_SG \<and> length h' = length h
    \<and> h' ! WardTeam DATA_SG =
        recoded (\<lambda>v. SUBGROUP_NODE_NAME si @ v) grp (COLUMN DATA_SG) (h ! WardTeam DATA_SG)
    \<and> h' ! Setting DATA_SG =
        recoded (\<lambda>v. ''Mixture'') grp (COLUMN DATA_SG) (h ! Setting DATA_SG)
    \<and> newWardTeam df = Some (h' ! WardTeam df) \<and> newSetting df = Some (h' ! Setting df)
    \<and> (\<forall>i < length (COLUMN DATA_SG). COLUMN DATA_SG ! i \<noteq> grp \<longrightarrow>
          h' ! WardTeam df ! i = SUBGROUP_NODE_NAME si @ COLUMN DATA_SG ! i
        \<and> h' ! Setting df ! i = ''Mixture'')
    \<and> (\<forall>a < length h. a \<noteq> WardTeam DATA_SG \<longrightarrow> a \<noteq> Setting DATA_SG \<longrightarrow> h' ! a = h ! a)
    \<and> (\<forall>h0. wf_frame h0 DATA_SG
          \<and> (\<forall>i < length (COLUMN DATA_SG). COLUMN DATA_SG ! i = grp \<longrightarrow>
                h0 ! WardTeam DATA_SG ! i = h ! WardTeam DATA_SG ! i
              \<and> h0 ! Setting DATA_SG ! i = h ! Setting DATA_SG ! i) \<longrightarrow>
          (\<exists>h0'. create_new_ward_and_setting_columns si DATA_SG grp h0 = (df, h0')
              \<and> h0' ! WardTeam DATA_SG = h' ! WardTeam DATA_SG
              \<and> h0' ! Setting DATA_SG = h' ! Setting DATA_SG))
    \<and> extends h (snd (create_network_data_for_subgroup (si\<lparr>DATA := DATA_SG\<rparr>) h))
    \<and> snd (create_network_data_for_subgroup (si\<lparr>DATA := DATA_SG\<rparr>) h) ! WardTeam DATA_SG =
        h ! WardTeam DATA_SG
    \<and> snd (create_network_data_for_subgroup (si\<lparr>DATA := DATA_SG\<rparr>) h) ! Setting DATA_SG =
        h ! Setting DATA_SG)
  \<and> (\<exists>df h1 r h2.
      subgroup_DATA_SG (si\<lparr>DATA := DATA_SG\<rparr>) grp h = (df, h1)
    \<and> create_network (si\<lparr>DATA := DATA_SG\<rparr>) df grp h1 = (r, h2)
    \<and> length h \<le> WardTeam df \<and> length h \<le> Setting df
    \<and> h1 ! WardTeam df = h ! WardTeam DATA_SG \<and> h1 ! Setting df = h ! Setting DATA_SG
    \<and> extends h h2
    \<and> h2 ! WardTeam DATA_SG = h ! WardTeam DATA_SG
    \<and> h2 ! Setting DATA_SG = h ! Setting DATA_SG
    \<and> h2 ! WardTeam df =
        recoded (\<lambda>v. SUBGROUP_NODE_NAME si @ v) grp (COLUMN DATA_SG) (h ! WardTeam DATA_SG)
    \<and> h2 ! Setting df =
        recoded (\<lambda>v. ''Mixture'') grp (COLUMN DATA_SG) (h ! Setting DATA_SG))
  \<and> (snd (create_network (si\<lparr>DATA := DATA_SG\<rparr>) DATA_SG grp h) ! WardTeam DATA_SG =
        recoded (\<lambda>v. SUBGROUP_NODE_NAME si @ v) grp (COLUMN DATA_SG) (h ! WardTeam DATA_SG)
    \<and> snd (create_network (si\<lparr>DATA := DATA_SG\<rparr>) DATA_SG grp h) ! Setting DATA_SG =
        recoded (\<lambda>v. ''Mixture'') grp (COLUMN DATA_SG) (h ! Setting DATA_SG)
    \<and> ((\<exists>i < length (COLUMN DATA_SG). COLUMN DATA_SG ! i \<noteq> grp
            \<and> h ! WardTeam DATA_SG ! i \<noteq> SUBGROUP_NODE_NAME si @ COLUMN DATA_SG ! i) \<longrightarrow>
         snd (create_network (si\<lparr>DATA := DATA_SG\<rparr>) DATA_SG grp h) ! WardTeam DATA_SG \<noteq> h ! WardTeam DATA_SG)
    \<and> ((\<exists>i < length (COLUMN DATA_SG). COLUMN DATA_SG ! i \<noteq> grp
            \<and> h ! Setting DATA_SG ! i \<noteq> ''Mixture'') \<longrightarrow>
         snd (create_network (si\<lparr>DATA := DATA_SG\<rparr>) DATA_SG grp h) ! Setting DATA_SG \<noteq> h ! Setting DATA_SG))
  \<and> (\<exists>si1 h1. remove_None (si\<lparr>DATA := DATA_SG\<rparr>) h = (si1, h1) \<and> wf_frame h1 (DATA si1)
    \<and> length h \<le> WardTeam (DATA si1) \<and> length h \<le> Setting (DATA si1)
    \<and> (\<forall>groups files. extends h1 (snd (subgroup_networks si1 groups files h1))
          \<and> snd (subgroup_networks si1 groups files h1) ! WardTeam (DATA si1) =
              h1 ! WardTeam (DATA si1)
          \<and> snd (subgroup_networks si1 groups files h1) ! Setting (DATA si1) =
              h1 ! Setting (DATA si1))
    \<and> snd (create_network_data_for_subgroup (si\<lparr>DATA := DATA_SG\<rparr>) h) ! WardTeam (DATA si1) =
        h1 ! WardTeam (DATA si1)
    \<and> snd (create_network_data_for_subgroup (si\<lparr>DATA := DATA_SG\<rparr>) h) ! Setting (DATA si1) =
        h1 ! Setting (DATA si1))"
proof -
  let ?si = "si\<lparr>DATA := DATA_SG\<rparr>"
  have wf': "wf_frame h (DATA ?si)" and rep': "REPRESENT_REMOVED ?si \<noteq> 0"
    and ne': "COLUMN (DATA ?si) \<noteq> []"
    using wf rep ne by simp_all
  have sel: "DATA ?si = DATA_SG" "SUBGROUP_NODE_NAME ?si = SUBGROUP_NODE_NAME si"
    by simp_all
  have a: "(\<exists>df h1 r h2.
      subgroup_DATA_SG (si\<lparr>DATA := DATA_SG\<rparr>) grp h = (df, h1)
    \<and> create_network (si\<lparr>DATA := DATA_SG\<rparr>) df grp h1 = (r, h2)
    \<and> length h \<le> WardTeam df \<and> length h \<le> Setting df
    \<and> h1 ! WardTeam df = h ! WardTeam DATA_SG \<and> h1 ! Setting df = h ! Setting DATA_SG
    \<and> extends h h2
    \<and> h2 ! WardTeam DATA_SG = h ! WardTeam DATA_SG
    \<and> h2 ! Setting DATA_SG = h ! Setting DATA_SG
    \<and> h2 ! WardTeam df =
        recoded (\<lambda>v. SUBGROUP_NODE_NAME si @ v) grp (COLUMN DATA_SG) (h ! WardTeam DATA_SG)
    \<and> h2 ! Setting df =
        recoded (\<lambda>v. ''Mixture'') grp (COLUMN DATA_SG) (h ! Setting DATA_SG))"
    using network_on_a_deep_copy[OF wf' rep' ne', of grp] unfolding sel .
  have b: "(snd (create_network (si\<lparr>DATA := DATA_SG\<rparr>) DATA_SG grp h) ! WardTeam DATA_SG =
        recoded (\<lambda>v. SUBGROUP_NODE_NAME si @ v) grp (COLUMN DATA_SG) (h ! WardTeam DATA_SG)
    \<and> snd (create_network (si\<lparr>DATA := DATA_SG\<rparr>) DATA_SG grp h) ! Setting DATA_SG =
        recoded (\<lambda>v. ''Mixture'') grp (COLUMN DATA_SG) (h ! Setting DATA_SG)
    \<and> ((\<exists>i < length (COLUMN DATA_SG). COLUMN DATA_SG ! i \<noteq> grp
            \<and> h ! WardTeam DATA_SG ! i \<noteq> SUBGROUP_NODE_NAME si @ COLUMN DATA_SG ! i) \<longrightarrow>
         snd (create_network (si\<lparr>DATA := DATA_SG\<rparr>) DATA_SG grp h) ! WardTeam DATA_SG \<noteq> h ! WardTeam DATA_SG)
    \<and> ((\<exists>i < length (COLUMN DATA_SG). COLUMN DATA_SG ! i \<noteq> grp
            \<and> h ! Setting DATA_SG ! i \<noteq> ''Mixture'') \<longrightarrow>
         snd (create_network (si\<lparr>DATA := DATA_SG\<rparr>) DATA_SG grp h) ! Setting DATA_SG \<noteq> h ! Setting DATA_SG))"
    using network_without_a_copy[OF wf' rep' ne', of grp] unfolding sel .
  have c: "(\<exists>si1 h1. remove_None (si\<lparr>DATA := DATA_SG\<rparr>) h = (si1, h1) \<and> wf_frame h1 (DATA si1)
    \<and> length h \<le> WardTeam (DATA si1) \<and> length h \<le> Setting (DATA si1)
    \<and> (\<forall>groups files. extends h1 (snd (subgroup_networks si1 groups files h1))
          \<and> snd (subgroup_networks si1 groups files h1) ! WardTeam (DATA si1) =
              h1 ! WardTeam (DATA si1)
          \<and> snd (subgroup_networks si1 groups files h1) ! Setting (DATA si1) =
              h1 ! Setting (DATA si1))
    \<and> snd (create_network_data_for_subgroup (si\<lparr>DATA := DATA_SG\<rparr>) h) ! WardTeam (DATA si1) =
        h1 ! WardTeam (DATA si1)
    \<and> snd (create_network_data_for_subgroup (si\<lparr>DATA := DATA_SG\<rparr>) h) ! Setting (DATA si1) =
        h1 ! Setting (DATA si1))"
    using networks_leave_the_data[OF wf'] unfolding sel .
  show ?thesis
    by (rule conjI[OF recoding_in_place[OF wf rep ne, of grp] conjI[OF a conjI[OF b c]]])
qed

lemma example_recode:
  "create_new_ward_and_setting_columns example_locality example_DATA ''North'' example_heap =
     (example_DATA
        \<lparr>newWardTeam := Some [''Ward1'', ''Ward2'', ''Locality None'', ''Locality South'', ''Ward2''],
         newSetting := Some [''Inpatient'', ''Community'', ''Mixture'', ''Mixture'', ''Community'']\<rparr>,
      [[''Ward1'', ''Ward2'', ''Locality None'', ''Locality South'', ''Ward2''],
       [''Inpatient'', ''Community'', ''Mixture'', ''Mixture'', ''Community'']])"
  by code_simp

lemma example_networks:
  "create_network_data_for_subgroup example_locality example_heap =
     (Inr [([[0, 0, 0], [0, 0, 1], [1, 0, 0]],
            [\<lparr>Source = 3, Target = 1, Type = ''Directed'', EdgeId = 0, Weight = 1\<rparr>,
             \<lparr>Source = 2, Target = 3, Type = ''Directed'', EdgeId = 1, Weight = 1\<rparr>],
            [\<lparr>NodeID = 1, Label = ''Locality South'', MeanLoS = 7, MedianLoS = 7,
               NodeSetting = ''Mixture''\<rparr>,
             \<lparr>NodeID = 2, Label = ''Ward1'', MeanLoS = 3, MedianLoS = 3,
               NodeSetting = ''Inpatient''\<rparr>,
             \<lparr>NodeID = 3, Label = ''Ward2'', MeanLoS = 11 / 2, MedianLoS = 11 / 2,
               NodeSetting = ''Community''\<rparr>]),
           ([[1, 1], [0, 0]],
            [\<lparr>Source = 1, Target = 1, Type = ''Directed'', EdgeId = 0, Weight = 1\<rparr>,
             \<lparr>Source = 1, Target = 2, Type = ''Directed'', EdgeId = 1, Weight = 1\<rparr>],
            [\<lparr>NodeID = 1, Label = ''Locality North'', MeanLoS = 14 / 3, MedianLoS = 3,
               NodeSetting = ''Mixture''\<rparr>,
             \<lparr>NodeID = 2, Label = ''Ward3'', MeanLoS = 7, MedianLoS = 7,
               NodeSetting = ''OOA''\<rparr>])],
      [[''Ward1'', ''Ward2'', ''Ward9'', ''Ward3'', ''Ward2''],
       [''Inpatient'', ''Community'', ''OOA'', ''OOA'', ''Community''],
       [''Ward1'', ''Ward2'', ''Ward3'', ''Ward2''],
       [''Inpatient'', ''Community'', ''OOA'', ''Community''],
       [''Ward1'', ''Ward2'', ''Locality South'', ''Ward2''],
       [''Inpatient'', ''Community'', ''Mixture'', ''Community''],
       [''Locality North'', ''Locality North'', ''Ward3'', ''Locality North''],
       [''Mixture'', ''Mixture'', ''OOA'', ''Mixture'']])"
  by code_simp

theorem excluded_groups_are_collapsed_witness:
  "wf_frame example_heap (DATA example_locality) \<and>
   REPRESENT_REMOVED example_locality \<noteq> 0 \<and>
   ''North'' \<in> set (COLUMN (DATA example_locality)) \<and> ''North'' \<noteq> ''None'' \<and>
   (\<exists>si' h1 DATA_SG h2 df h3 labels.
      remove_None example_locality example_heap = (si', h1)
    \<and> subgroup_DATA_SG si' ''North'' h1 = (DATA_SG, h2)
    \<and> create_new_ward_and_setting_columns si' DATA_SG ''North'' h2 = (df, h3)
    \<and> newWardTeam df = Some labels
    \<and> set labels =
        {w. (w, ''North'') \<in> set (zip (example_heap ! WardTeam (DATA example_locality))
                                     (COLUMN (DATA example_locality)))}
        \<union> {SUBGROUP_NODE_NAME example_locality @ v | v.
             v \<in> set (COLUMN (DATA example_locality)) \<and> v \<noteq> ''North'' \<and> v \<noteq> ''None''})"
proof -
  have w: "wf_frame example_heap (DATA example_locality)"
    by (simp add: wf_frame_def example_locality_def example_DATA_def example_heap_def)
  have r: "REPRESENT_REMOVED example_locality \<noteq> 0"
    by (simp add: example_locality_def)
  have g: "''North'' \<in> set (COLUMN (DATA example_locality))"
    by (simp add: example_locality_def example_DATA_def)
  have n: "''North'' \<noteq> ''None''"
    by simp
  from excluded_groups_are_collapsed[OF w r g n]
  obtain si' h1 DATA_SG h2 df h3 labels where
    "remove_None example_locality example_heap = (si', h1)"
    "subgroup_DATA_SG si' ''North'' h1 = (DATA_SG, h2)"
    "create_new_ward_and_setting_columns si' DATA_SG ''North'' h2 = (df, h3)"
    "newWardTeam df = Some labels"
    "set labels =
        {w. (w, ''North'') \<in> set (zip (example_heap ! WardTeam (DATA example_locality))
                                     (COLUMN (DATA example_locality)))}
        \<union> {SUBGROUP_NODE_NAME example_locality @ v | v.
             v \<in> set (COLUMN (DATA example_locality)) \<and> v \<noteq> ''North'' \<and> v \<noteq> ''None''}"
    by (elim exE conjE) (rule that, assumption+)
  then have "\<exists>si' h1 DATA_SG h2 df h3 labels.
      remove_None example_locality example_heap = (si', h1)
    \<and> subgroup_DATA_SG si' ''North'' h1 = (DATA_SG, h2)
    \<and> create_new_ward_and_setting_columns si' DATA_SG ''North'' h2 = (df, h3)
    \<and> newWardTeam df = Some labels
    \<and> set labels =
        {w. (w, ''North'') \<in> set (zip (example_heap ! WardTeam (DATA example_locality))
                                     (COLUMN (DATA example_locality)))}
        \<union> {SUBGROUP_NODE_NAME example_locality @ v | v.
             v \<in> set (COLUMN (DATA example_locality)) \<and> v \<noteq> ''North'' \<and> v \<noteq> ''None''}"
    by (intro exI conjI)
  with w r g n show ?thesis
    by (intro conjI)
qed

lemma example_recoded:
  "recoded (\<lambda>v. SUBGROUP_NODE_NAME example_locality @ v) ''North'' (COLUMN example_DATA)
     (example_heap ! WardTeam example_DATA) =
     [''Ward1'', ''Ward2'', ''Locality None'', ''Locality South'', ''Ward2'']"
  by (simp add: recoded_def example_locality_def example_DATA_def example_heap_def)

theorem recoding_writes_into_the_frame_witness:
  "wf_frame example_heap example_DATA \<and> REPRESENT_REMOVED example_locality \<noteq> 0 \<and>
   COLUMN example_DATA \<noteq> [] \<and>
   (\<exists>df h'.
      create_new_ward_and_setting_columns example_locality example_DATA ''North'' example_heap =
        (df, h')
    \<and> WardTeam df = WardTeam example_DATA
    \<and> newWardTeam df = Some (h' ! WardTeam df) \<and> newSetting df = Some (h' ! Setting df)
    \<and> h' ! WardTeam example_DATA =
        [''Ward1'', ''Ward2'', ''Locality None'', ''Locality South'', ''Ward2'']) \<and>
   extends example_heap
     (snd (create_network_data_for_subgroup (example_locality\<lparr>DATA := example_DATA\<rparr>)
        example_heap)) \<and>
   (\<exists>df h1 r h2.
      subgroup_DATA_SG (example_locality\<lparr>DATA := example_DATA\<rparr>) ''North'' example_heap = (df, h1)
    \<and> create_network (example_locality\<lparr>DATA := example_DATA\<rparr>) df ''North'' h1 = (r, h2)
    \<and> h1 ! WardTeam df = example_heap ! WardTeam example_DATA
    \<and> h2 ! WardTeam example_DATA = example_heap ! WardTeam example_DATA
    \<and> h2 ! WardTeam df =
        [''Ward1'', ''Ward2'', ''Locality None'', ''Locality South'', ''Ward2'']) \<and>
   (2 < length (COLUMN example_DATA) \<and> COLUMN example_DATA ! 2 \<noteq> ''North''
    \<and> example_heap ! WardTeam example_DATA ! 2 \<noteq>
        SUBGROUP_NODE_NAME example_locality @ COLUMN example_DATA ! 2) \<and>
   snd (create_network (example_locality\<lparr>DATA := example_DATA\<rparr>) example_DATA ''North'' example_heap)
       ! WardTeam example_DATA \<noteq> example_heap ! WardTeam example_DATA \<and>
   (\<exists>si1 h1. remove_None (example_locality\<lparr>DATA := example_DATA\<rparr>) example_heap = (si1, h1)
    \<and> snd (create_network_data_for_subgroup (example_locality\<lparr>DATA := example_DATA\<rparr>) example_heap)
          ! WardTeam (DATA si1) = h1 ! WardTeam (DATA si1)
    \<and> snd (create_network_data_for_subgroup (example_locality\<lparr>DATA := example_DATA\<rparr>) example_heap)
          ! Setting (DATA si1) = h1 ! Setting (DATA si1))"
proof -
  have w: "wf_frame example_heap example_DATA"
    by (simp add: wf_frame_def example_DATA_def example_heap_def)
  have r: "REPRESENT_REMOVED example_locality \<noteq> 0"
    by (simp add: example_locality_def)
  have c: "COLUMN example_DATA \<noteq> []"
    by (simp add: example_DATA_def)
  note all = recoding_writes_into_the_frame[OF w r c, of "''North''"]
  from all[THEN conjunct1]
  obtain df h' where
    run: "create_new_ward_and_setting_columns example_locality example_DATA ''North'' example_heap =
        (df, h')"
    and same: "WardTeam df = WardTeam example_DATA"
    and new: "newWardTeam df = Some (h' ! WardTeam df)" "newSetting df = Some (h' ! Setting df)"
    and ext: "extends example_heap
     (snd (create_network_data_for_subgroup (example_locality\<lparr>DATA := example_DATA\<rparr>)
        example_heap))"
    by (elim exE conjE) (rule that, assumption+)
  have "h' ! WardTeam example_DATA =
      [''Ward1'', ''Ward2'', ''Locality None'', ''Locality South'', ''Ward2'']"
    using run unfolding example_recode by (auto simp: example_DATA_def)
  with run same new have old: "(\<exists>df h'.
      create_new_ward_and_setting_columns example_locality example_DATA ''North'' example_heap =
        (df, h')
    \<and> WardTeam df = WardTeam example_DATA
    \<and> newWardTeam df = Some (h' ! WardTeam df) \<and> newSetting df = Some (h' ! Setting df)
    \<and> h' ! WardTeam example_DATA =
        [''Ward1'', ''Ward2'', ''Locality None'', ''Locality South'', ''Ward2''])"
    by (intro exI conjI)
  from all[THEN conjunct2, THEN conjunct1]
  obtain df1 h1 r1 h2 where
    "subgroup_DATA_SG (example_locality\<lparr>DATA := example_DATA\<rparr>) ''North'' example_heap = (df1, h1)"
    "create_network (example_locality\<lparr>DATA := example_DATA\<rparr>) df1 ''North'' h1 = (r1, h2)"
    "h1 ! WardTeam df1 = example_heap ! WardTeam example_DATA"
    "h2 ! WardTeam example_DATA = example_heap ! WardTeam example_DATA"
    "h2 ! WardTeam df1 =
        recoded (\<lambda>v. SUBGROUP_NODE_NAME example_locality @ v) ''North'' (COLUMN example_DATA)
          (example_heap ! WardTeam example_DATA)"
    by (elim exE conjE) (rule that, assumption+)
  then have copy: "(\<exists>df h1 r h2.
      subgroup_DATA_SG (example_locality\<lparr>DATA := example_DATA\<rparr>) ''North'' example_heap = (df, h1)
    \<and> create_network (example_locality\<lparr>DATA := example_DATA\<rparr>) df ''North'' h1 = (r, h2)
    \<and> h1 ! WardTeam df = example_heap ! WardTeam example_DATA
    \<and> h2 ! WardTeam example_DATA = example_heap ! WardTeam example_DATA
    \<and> h2 ! WardTeam df =
        [''Ward1'', ''Ward2'', ''Locality None'', ''Locality South'', ''Ward2''])"
    unfolding example_recoded by (intro exI conjI)
  have hyp: "(2 < length (COLUMN example_DATA) \<and> COLUMN example_DATA ! 2 \<noteq> ''North''
    \<and> example_heap ! WardTeam example_DATA ! 2 \<noteq>
        SUBGROUP_NODE_NAME example_locality @ COLUMN example_DATA ! 2)"
    by (simp add: example_locality_def example_DATA_def example_heap_def)
  then have "\<exists>i < length (COLUMN example_DATA). COLUMN example_DATA ! i \<noteq> ''North''
      \<and> example_heap ! WardTeam example_DATA ! i \<noteq>
          SUBGROUP_NODE_NAME example_locality @ COLUMN example_DATA ! i"
    by (intro exI[of _ 2])
  with all[THEN conjunct2, THEN conjunct2, THEN conjunct1, THEN conjunct2, THEN conjunct2,
      THEN conjunct1]
  have nocopy: "snd (create_network (example_locality\<lparr>DATA := example_DATA\<rparr>) example_DATA ''North'' example_heap)
       ! WardTeam example_DATA \<noteq> example_heap ! WardTeam example_DATA"
    by (rule mp)
  from all[THEN conjunct2, THEN conjunct2, THEN conjunct2]
  obtain si1 h3 where
    "remove_None (example_locality\<lparr>DATA := example_DATA\<rparr>) example_heap = (si1, h3)"
    "snd (create_network_data_for_subgroup (example_locality\<lparr>DATA := example_DATA\<rparr>) example_heap)
          ! WardTeam (DATA si1) = h3 ! WardTeam (DATA si1)"
    "snd (create_network_data_for_subgroup (example_locality\<lparr>DATA := example_DATA\<rparr>) example_heap)
          ! Setting (DATA si1) = h3 ! Setting (DATA si1)"
    by (elim exE conjE) (rule that, assumption+)
  then have loop: "(\<exists>si1 h1. remove_None (example_locality\<lparr>DATA := example_DATA\<rparr>) example_heap = (si1, h1)
    \<and> snd (create_network_data_for_subgroup (example_locality\<lparr>DATA := example_DATA\<rparr>) example_heap)
          ! WardTeam (DATA si1) = h1 ! WardTeam (DATA si1)
    \<and> snd (create_network_data_for_subgroup (example_locality\<lparr>DATA := example_DATA\<rparr>) example_heap)
          ! Setting (DATA si1) = h1 ! Setting (DATA si1))"
    by (intro exI conjI)
  show ?thesis
    by (rule conjI[OF w conjI[OF r conjI[OF c conjI[OF old conjI[OF ext conjI[OF copy
          conjI[OF hyp conjI[OF nocopy loop]]]]]]]])
qed

end
